theory Spec2Isabelle
  imports Complex_Main
begin

section \<open>Data model of the poker server\<close>

text \<open>
  The server keeps two global tables, \<^verbatim>\<open>users\<close> and \<^verbatim>\<open>gameRooms\<close>
  (JavaScript \<^verbatim>\<open>Map\<close>s), and mutates the objects stored in them from its socket
  event handlers and timer callbacks. The model passes both tables around explicitly as
  one record, the \<open>world\<close>; every handler is a function from the world before the event
  to the world after it.

  JavaScript numbers are IEEE doubles; the model computes with rationals. The small blind
  is \<^verbatim>\<open>bigBlind / 2\<close>, and every other operation on chips is an addition, a
  subtraction, a comparison or a \<^verbatim>\<open>Math.min\<close>. On multiples of one half of
  magnitude below \<open>2^52\<close> all of these are computed without rounding by the doubles,
  and there the model and the code agree. Outside this range the doubles round and the
  rationals do not, so every statement below that needs the arithmetic to be exact is
  made for such amounts only (\<open>exactAmount\<close>, \<open>exactRoom\<close>, \<open>exactData\<close>).

  \<^verbatim>\<open>dealerIndex\<close> starts at 0 and is only ever set to a remainder modulo the number
  of players, so it is a natural number. \<^verbatim>\<open>currentPlayerIndex\<close> starts at \<open>-1\<close>
  and is an integer.

  Messages emitted to the clients (\<^verbatim>\<open>socket.emit\<close>, \<^verbatim>\<open>io.to(...).emit\<close>)
  read the state and never change it; they are left out, except for the error message
  of a rejected join request.
\<close>

datatype suit = Spade | Heart | Diamond | Club

datatype colour = Red | Black

text \<open>The thirteen card values \<^verbatim>\<open>'A', '2', ..., '10', 'J', 'Q', 'K'\<close>.\<close>

datatype card_rank = RA | R2 | R3 | R4 | R5 | R6 | R7 | R8 | R9 | R10 | RJ | RQ | RK

record card =
  card_value :: card_rank
  card_suit :: suit
  card_color :: colour

datatype phase = Waiting | Preflop | Flop | Turn | River | Showdown

record user =
  user_id :: string
  password :: string
  user_chips :: rat
  user_socketId :: "string option"

record player =
  userId :: string
  socketId :: string
  chips :: rat
  cards :: "card list"
  bet :: rat
  folded :: bool
  allIn :: bool

record room =
  room_id :: string
  players :: "player list"
  deck :: "card list"
  communityCards :: "card list"
  pot :: rat
  currentBet :: rat
  bigBlind :: rat
  smallBlind :: rat
  dealerIndex :: nat
  currentPlayerIndex :: int
  phase :: phase
  maxPlayers :: nat

record world =
  users :: "string \<rightharpoonup> user"
  gameRooms :: "string \<rightharpoonup> room"

text \<open>The fields of a socket that the handlers read and write.\<close>

record socket =
  sock_id :: string
  sock_userId :: "string option"
  currentRoom :: "string option"

text \<open>
  An uncaught \<^verbatim>\<open>TypeError\<close> (a property read or written on \<^verbatim>\<open>undefined\<close>)
  aborts the handler that raised it.
\<close>

datatype error = TypeError

section \<open>Deck\<close>

definition suits :: "suit list" where
  "suits = [Spade, Heart, Diamond, Club]"

definition card_values :: "card_rank list" where
  "card_values = [RA, R2, R3, R4, R5, R6, R7, R8, R9, R10, RJ, RQ, RK]"

definition mkCard :: "suit \<Rightarrow> card_rank \<Rightarrow> card" where
  "mkCard s v = \<lparr>card_value = v, card_suit = s,
     card_color = (if s = Heart \<or> s = Diamond then Red else Black)\<rparr>"

text \<open>
  \<^verbatim>\<open>shuffleDeck\<close>: the loop runs \<open>i\<close> from \<open>length - 1\<close> down to \<open>1\<close> and swaps
  position \<open>i\<close> with position \<open>floor (Math.random() * (i + 1))\<close>. The results of the
  successive calls of \<^verbatim>\<open>Math.random\<close> are the values \<open>rnd 0\<close>, \<open>rnd 1\<close>, ...
  of a parameter; \<^verbatim>\<open>Math.random\<close> returns values in \<open>[0, 1)\<close>, and then \<open>j \<le> i\<close>.
\<close>

fun shuffleLoop :: "(nat \<Rightarrow> rat) \<Rightarrow> nat \<Rightarrow> nat \<Rightarrow> card list \<Rightarrow> card list" where
  "shuffleLoop rnd k 0 shuffled = shuffled"
| "shuffleLoop rnd k (Suc i) shuffled =
     (let j = nat \<lfloor>rnd k * of_nat (Suc i + 1)\<rfloor>
      in shuffleLoop rnd (Suc k) i
           (shuffled[Suc i := shuffled ! j, j := shuffled ! Suc i]))"

definition shuffleDeck :: "(nat \<Rightarrow> rat) \<Rightarrow> card list \<Rightarrow> card list" where
  "shuffleDeck rnd d = shuffleLoop rnd 0 (length d - 1) d"

definition createDeck :: "(nat \<Rightarrow> rat) \<Rightarrow> card list" where
  "createDeck rnd =
     shuffleDeck rnd (concat (map (\<lambda>s. map (\<lambda>v. mkCard s v) card_values) suits))"

section \<open>Rooms\<close>

definition createGameRoom :: "string \<Rightarrow> rat \<Rightarrow> room" where
  "createGameRoom roomId bb =
     \<lparr>room_id = roomId, players = [], deck = [], communityCards = [], pot = 0,
      currentBet = 0, bigBlind = bb, smallBlind = bb / 2, dealerIndex = 0,
      currentPlayerIndex = - 1, phase = Waiting, maxPlayers = 6\<rparr>"

definition setRoom :: "world \<Rightarrow> string \<Rightarrow> room \<Rightarrow> world" where
  "setRoom w roomId r = w\<lparr>gameRooms := (gameRooms w)(roomId \<mapsto> r)\<rparr>"

text \<open>
  \<^verbatim>\<open>const user = users.get(id); if (user) user.chips = c;\<close>
\<close>

definition syncUser :: "(string \<rightharpoonup> user) \<Rightarrow> string \<Rightarrow> rat \<Rightarrow> (string \<rightharpoonup> user)" where
  "syncUser us uid c =
     (case us uid of None \<Rightarrow> us | Some u \<Rightarrow> us(uid \<mapsto> u\<lparr>user_chips := c\<rparr>))"

section \<open>Authentication\<close>

datatype auth_error = IdTaken | BadLogin

record auth_data =
  auth_userId :: string
  auth_password :: string
  isRegistration :: bool

text \<open>
  The \<^verbatim>\<open>authenticate\<close> handler: a registration creates the user with 10000 chips,
  a login checks the password; both bind the socket to the user.
\<close>

definition authenticate :: "world \<Rightarrow> socket \<Rightarrow> auth_data \<Rightarrow> auth_error option \<times> world \<times> socket" where
  "authenticate w socket data =
     (if isRegistration data then
        (if users w (auth_userId data) \<noteq> None then (Some IdTaken, w, socket)
         else (None,
               w\<lparr>users := (users w)(auth_userId data \<mapsto>
                    \<lparr>user_id = auth_userId data, password = auth_password data,
                     user_chips = 10000, user_socketId = Some (sock_id socket)\<rparr>)\<rparr>,
               socket\<lparr>sock_userId := Some (auth_userId data)\<rparr>))
      else
        (case users w (auth_userId data) of
           None \<Rightarrow> (Some BadLogin, w, socket)
         | Some user \<Rightarrow>
             if password user \<noteq> auth_password data then (Some BadLogin, w, socket)
             else (None,
                   w\<lparr>users := (users w)(auth_userId data \<mapsto>
                        user\<lparr>user_socketId := Some (sock_id socket)\<rparr>)\<rparr>,
                   socket\<lparr>sock_userId := Some (auth_userId data)\<rparr>)))"

section \<open>Joining and leaving a room\<close>

datatype join_error = AuthRequired | NotEnoughChips | AlreadyJoined | RoomFull

record join_data =
  req_roomId :: string
  req_bigBlind :: rat

text \<open>
  The \<^verbatim>\<open>join-room\<close> handler. The first component of the result is the error
  message sent back to the requester, if any. The timer that the handler sets at its end
  (\<^verbatim>\<open>setTimeout(() => startNewGame(roomId), 3000)\<close>) fires as a later event of
  its own, \<open>startNewGame\<close> below.
\<close>

definition joinRoom :: "world \<Rightarrow> socket \<Rightarrow> join_data \<Rightarrow> join_error option \<times> world \<times> socket" where
  "joinRoom w socket data =
     (case sock_userId socket of
        None \<Rightarrow> (Some AuthRequired, w, socket)
      | Some uid \<Rightarrow>
     (case users w uid of
        None \<Rightarrow> (Some AuthRequired, w, socket)
      | Some user \<Rightarrow>
          if user_chips user < req_bigBlind data * 10 then (Some NotEnoughChips, w, socket)
          else
            let roomId = req_roomId data;
                room = (case gameRooms w roomId of
                          None \<Rightarrow> createGameRoom roomId (req_bigBlind data)
                        | Some r \<Rightarrow> r);
                w1 = setRoom w roomId room
            in if List.find (\<lambda>p. userId p = uid) (players room) \<noteq> None
               then (Some AlreadyJoined, w1, socket)
               else if length (players room) \<ge> maxPlayers room
               then (Some RoomFull, w1, socket)
               else
                 let player = \<lparr>userId = uid, socketId = sock_id socket,
                               chips = user_chips user, cards = [], bet = 0,
                               folded = False, allIn = False\<rparr>
                 in (None, setRoom w1 roomId (room\<lparr>players := players room @ [player]\<rparr>),
                     socket\<lparr>currentRoom := Some roomId\<rparr>)))"

text \<open>\<^verbatim>\<open>Array.prototype.findIndex\<close>: the first index that satisfies \<open>P\<close>, or \<open>-1\<close>.\<close>

fun findIndexFrom :: "('a \<Rightarrow> bool) \<Rightarrow> nat \<Rightarrow> 'a list \<Rightarrow> int" where
  "findIndexFrom P i [] = - 1"
| "findIndexFrom P i (x # xs) = (if P x then int i else findIndexFrom P (Suc i) xs)"

definition findIndex :: "('a \<Rightarrow> bool) \<Rightarrow> 'a list \<Rightarrow> int" where
  "findIndex P xs = findIndexFrom P 0 xs"

text \<open>\<^verbatim>\<open>xs.splice(i, 1)\<close>\<close>

definition splice1 :: "nat \<Rightarrow> 'a list \<Rightarrow> 'a list" where
  "splice1 i xs = take i xs @ drop (Suc i) xs"

text \<open>
  \<^verbatim>\<open>leaveCurrentRoom\<close>: the player of this socket leaves the room, and the room is
  deleted when it becomes empty. \<^verbatim>\<open>if (!roomId) return\<close> also stops on the empty
  string.
\<close>

definition leaveCurrentRoom :: "world \<Rightarrow> socket \<Rightarrow> world \<times> socket" where
  "leaveCurrentRoom w socket =
     (case currentRoom socket of
        None \<Rightarrow> (w, socket)
      | Some roomId \<Rightarrow>
          if roomId = [] then (w, socket)
          else
          (case gameRooms w roomId of
             None \<Rightarrow> (w, socket)
           | Some room \<Rightarrow>
               let playerIndex = findIndex (\<lambda>p. socketId p = sock_id socket) (players room);
                   w1 = (if playerIndex \<noteq> - 1 then
                           (let ps = splice1 (nat playerIndex) (players room)
                            in if length ps = 0
                               then w\<lparr>gameRooms := (gameRooms w)(roomId := None)\<rparr>
                               else setRoom w roomId (room\<lparr>players := ps\<rparr>))
                         else w)
               in (w1, socket\<lparr>currentRoom := None\<rparr>)))"

text \<open>
  The \<^verbatim>\<open>disconnect\<close> handler: leave the room, then clear the socket id of the
  user if it is still this socket's (\<^verbatim>\<open>if (socket.userId)\<close> skips the empty
  string as well as a missing id).
\<close>

definition disconnect :: "world \<Rightarrow> socket \<Rightarrow> world \<times> socket" where
  "disconnect w socket =
     (case leaveCurrentRoom w socket of
        (w1, socket1) \<Rightarrow>
          (case sock_userId socket1 of
             None \<Rightarrow> (w1, socket1)
           | Some uid \<Rightarrow>
               if uid = [] then (w1, socket1)
               else
               (case users w1 uid of
                  None \<Rightarrow> (w1, socket1)
                | Some user \<Rightarrow>
                    if user_socketId user = Some (sock_id socket1)
                    then (w1\<lparr>users := (users w1)(uid \<mapsto> user\<lparr>user_socketId := None\<rparr>)\<rparr>,
                          socket1)
                    else (w1, socket1))))"

section \<open>Hand start\<close>

text \<open>
  The callback of \<^verbatim>\<open>room.players.forEach((player, index) => ...)\<close> in
  \<^verbatim>\<open>startNewGame\<close>, run over the seats in order. It resets the player, posts the
  blinds, adds them to \<^verbatim>\<open>room.pot\<close> and copies the new balance of a blind's payer
  to the user table. The room argument supplies the fields the callback only reads.
\<close>

fun resetPlayers :: "room \<Rightarrow> nat \<Rightarrow> player list \<Rightarrow> (string \<rightharpoonup> user) \<Rightarrow> rat
    \<Rightarrow> player list \<times> (string \<rightharpoonup> user) \<times> rat" where
  "resetPlayers r index [] us pt = ([], us, pt)"
| "resetPlayers r index (p # ps) us pt =
     (let p0 = p\<lparr>cards := [], bet := 0, folded := False, allIn := False\<rparr>
      in if index = (dealerIndex r + 1) mod length (players r) then
           (let p1 = p0\<lparr>bet := smallBlind r, chips := chips p0 - smallBlind r\<rparr>
            in case resetPlayers r (Suc index) ps (syncUser us (userId p1) (chips p1))
                      (pt + smallBlind r) of
                 (ps', us', pt') \<Rightarrow> (p1 # ps', us', pt'))
         else if index = (dealerIndex r + 2) mod length (players r) then
           (let p1 = p0\<lparr>bet := bigBlind r, chips := chips p0 - bigBlind r\<rparr>
            in case resetPlayers r (Suc index) ps (syncUser us (userId p1) (chips p1))
                      (pt + bigBlind r) of
                 (ps', us', pt') \<Rightarrow> (p1 # ps', us', pt'))
         else
           (case resetPlayers r (Suc index) ps us pt of
              (ps', us', pt') \<Rightarrow> (p0 # ps', us', pt')))"

text \<open>
  One pass of \<^verbatim>\<open>room.players.forEach(player => { if (room.deck.length > 0)
  player.cards.push(room.deck.pop()) })\<close>. The top of the deck is the end of the array.
\<close>

fun dealRound :: "player list \<Rightarrow> card list \<Rightarrow> player list \<times> card list" where
  "dealRound [] d = ([], d)"
| "dealRound (p # ps) d =
     (if length d > 0 then
        (case dealRound ps (butlast d) of
           (ps', d') \<Rightarrow> (p\<lparr>cards := cards p @ [last d]\<rparr> # ps', d'))
      else
        (case dealRound ps d of (ps', d') \<Rightarrow> (p # ps', d')))"

definition startNewGame :: "(nat \<Rightarrow> rat) \<Rightarrow> world \<Rightarrow> string \<Rightarrow> world" where
  "startNewGame rnd w roomId =
     (case gameRooms w roomId of
        None \<Rightarrow> w
      | Some room \<Rightarrow>
          if length (players room) < 2 then w
          else
            let r1 = room\<lparr>deck := createDeck rnd, communityCards := [], pot := 0,
                           currentBet := bigBlind room, phase := Preflop\<rparr>
            in case resetPlayers r1 0 (players r1) (users w) (pot r1) of
                 (ps1, us, pt) \<Rightarrow>
                   (case dealRound ps1 (deck r1) of
                      (ps2, d2) \<Rightarrow>
                        (case dealRound ps2 d2 of
                           (ps3, d3) \<Rightarrow>
                             \<lparr>users = us,
                              gameRooms = (gameRooms w)(roomId \<mapsto>
                                r1\<lparr>players := ps3, deck := d3, pot := pt,
                                   currentPlayerIndex :=
                                     int ((dealerIndex r1 + 3) mod length ps3)\<rparr>)\<rparr>)))"

section \<open>Settlement\<close>

text \<open>
  \<^verbatim>\<open>endGame\<close>. \<^verbatim>\<open>activePlayers\<close> holds references to the player objects of
  \<^verbatim>\<open>room.players\<close>, so the model keeps the seats of the players that have not
  folded and updates the winner in place. The winner is \<^verbatim>\<open>activePlayers[0]\<close> when
  one player is left and
  \<^verbatim>\<open>activePlayers[Math.floor(Math.random() * activePlayers.length)]\<close> otherwise;
  the two branches then run the same statements. \<open>x\<close> is the value of the one call of
  \<^verbatim>\<open>Math.random\<close>. With no player left, \<^verbatim>\<open>winner\<close> is \<^verbatim>\<open>undefined\<close> and
  \<^verbatim>\<open>winner.chips += room.pot\<close> throws. The timer set at the end fires as a later
  \<open>startNewGame\<close> event.
\<close>

definition activeSeats :: "player list \<Rightarrow> nat list" where
  "activeSeats ps = filter (\<lambda>i. \<not> folded (ps ! i)) [0..<length ps]"

text \<open>
  The part of \<^verbatim>\<open>endGame\<close> that both branches share once the winner is chosen:
  the winner at \<open>seat\<close> receives the pot, the user table is synchronised, the phase
  becomes \<open>Waiting\<close> and the dealer button moves on.
\<close>

definition settle :: "world \<Rightarrow> string \<Rightarrow> room \<Rightarrow> nat \<Rightarrow> world" where
  "settle w roomId room seat =
     (let winner = (players room ! seat)\<lparr>chips := chips (players room ! seat) + pot room\<rparr>
      in \<lparr>users = syncUser (users w) (userId winner) (chips winner),
          gameRooms = (gameRooms w)(roomId \<mapsto>
            room\<lparr>players := (players room)[seat := winner],
                 phase := Waiting,
                 dealerIndex := (dealerIndex room + 1) mod length (players room)\<rparr>)\<rparr>)"

definition endGame :: "rat \<Rightarrow> world \<Rightarrow> string \<Rightarrow> error + world" where
  "endGame x w roomId =
     (case gameRooms w roomId of
        None \<Rightarrow> Inr w
      | Some room \<Rightarrow>
          let activePlayers = activeSeats (players room);
              k = (if length activePlayers = 1 then 0
                   else \<lfloor>x * of_nat (length activePlayers)\<rfloor>)
          in if 0 \<le> k \<and> k < int (length activePlayers)
             then Inr (settle w roomId room (activePlayers ! nat k))
             else Inl TypeError)"

section \<open>Turn and phase engine\<close>

definition eligible :: "player \<Rightarrow> bool" where
  "eligible p = (\<not> folded p \<and> \<not> allIn p \<and> chips p > 0)"

text \<open>
  The \<^verbatim>\<open>while (attempts < room.players.length)\<close> loop of \<^verbatim>\<open>nextPlayer\<close>:
  the seat it stops at, or \<open>None\<close> when it runs to its end.
\<close>

function nextPlayerLoop :: "player list \<Rightarrow> nat \<Rightarrow> nat \<Rightarrow> nat option" where
  "nextPlayerLoop ps nextIndex attempts =
     (if attempts < length ps then
        (if eligible (ps ! nextIndex) then Some nextIndex
         else nextPlayerLoop ps ((nextIndex + 1) mod length ps) (attempts + 1))
      else None)"
  by pat_completeness auto
termination
  by (relation "measure (\<lambda>(ps, nextIndex, attempts). length ps - attempts)") auto

declare nextPlayerLoop.simps [simp del]

text \<open>
  The remainder operator \<^verbatim>\<open>%\<close> on integers, for a positive divisor: the result has
  the sign of the dividend.
\<close>

definition jsRem :: "int \<Rightarrow> int \<Rightarrow> int" where
  "jsRem a b = (if a \<ge> 0 then a mod b else - ((- a) mod b))"

text \<open>
  \<^verbatim>\<open>if (room.deck.length > 0) room.communityCards.push(room.deck.pop())\<close>
\<close>

definition dealCommunity :: "room \<Rightarrow> room" where
  "dealCommunity r =
     (if length (deck r) > 0
      then r\<lparr>communityCards := communityCards r @ [last (deck r)], deck := butlast (deck r)\<rparr>
      else r)"

text \<open>
  The cases \<^verbatim>\<open>'preflop'\<close>, \<^verbatim>\<open>'flop'\<close> and \<^verbatim>\<open>'turn'\<close> of the
  \<^verbatim>\<open>switch (room.phase)\<close> in \<^verbatim>\<open>nextPhase\<close>; in phase \<^verbatim>\<open>'waiting'\<close> and
  \<^verbatim>\<open>'showdown'\<close> no case matches. The case \<^verbatim>\<open>'river'\<close>, which returns from
  the function, is in \<open>nextPhase\<close> itself.
\<close>

definition streetSwitch :: "room \<Rightarrow> room" where
  "streetSwitch r =
     (case phase r of
        Preflop \<Rightarrow> dealCommunity (dealCommunity (dealCommunity (r\<lparr>phase := Flop\<rparr>)))
      | Flop \<Rightarrow> dealCommunity (r\<lparr>phase := Turn\<rparr>)
      | Turn \<Rightarrow> dealCommunity (r\<lparr>phase := River\<rparr>)
      | _ \<Rightarrow> r)"

text \<open>
  The head of \<^verbatim>\<open>nextPhase\<close>:
  \<^verbatim>\<open>room.players.forEach(player => { player.bet = 0; }); room.currentBet = 0;\<close>
\<close>

definition resetBets :: "room \<Rightarrow> room" where
  "resetBets r = r\<lparr>players := map (\<lambda>p. p\<lparr>bet := 0\<rparr>) (players r), currentBet := 0\<rparr>"

text \<open>
  \<^verbatim>\<open>nextPlayer\<close> and \<^verbatim>\<open>nextPhase\<close> call each other, and nothing in them bounds
  the recursion: in phase \<^verbatim>\<open>'waiting'\<close> with no eligible player it never ends. The
  first argument bounds the depth of the calls; \<open>None\<close> says that the bound was reached
  before the calls returned. \<open>x\<close> is the value of \<^verbatim>\<open>Math.random()\<close> in
  \<^verbatim>\<open>endGame\<close>.

  With a negative start index the first round of the loop reads a property of
  \<^verbatim>\<open>room.players[nextIndex]\<close>, which is \<^verbatim>\<open>undefined\<close>.
\<close>

fun nextPlayer :: "nat \<Rightarrow> rat \<Rightarrow> world \<Rightarrow> string \<Rightarrow> (error + world) option"
  and nextPhase :: "nat \<Rightarrow> rat \<Rightarrow> world \<Rightarrow> string \<Rightarrow> (error + world) option" where
  "nextPlayer 0 x w roomId = None"
| "nextPlayer (Suc fuel) x w roomId =
     (case gameRooms w roomId of
        None \<Rightarrow> Some (Inr w)
      | Some room \<Rightarrow>
          let start = jsRem (currentPlayerIndex room + 1) (int (length (players room)))
          in if 0 < length (players room) \<and> start < 0 then Some (Inl TypeError)
             else
               (case nextPlayerLoop (players room) (nat start) 0 of
                  Some nextIndex \<Rightarrow>
                    Some (Inr (setRoom w roomId (room\<lparr>currentPlayerIndex := int nextIndex\<rparr>)))
                | None \<Rightarrow> nextPhase fuel x w roomId))"
| "nextPhase 0 x w roomId = None"
| "nextPhase (Suc fuel) x w roomId =
     (case gameRooms w roomId of
        None \<Rightarrow> Some (Inr w)
      | Some room \<Rightarrow>
          let r0 = resetBets room
          in if phase r0 = River
             then Some (endGame x (setRoom w roomId (r0\<lparr>phase := Showdown\<rparr>)) roomId)
             else nextPlayer fuel x
                    (setRoom w roomId
                       ((streetSwitch r0)\<lparr>currentPlayerIndex := int (dealerIndex r0)\<rparr>))
                    roomId)"

section \<open>Player actions\<close>

datatype action = Fold | Call | Raise | Check | AllIn | OtherAction

text \<open>
  The payload of a \<^verbatim>\<open>player-action\<close> event. \<open>amount\<close> is the value of
  \<^verbatim>\<open>parseInt(amount)\<close>, \<open>None\<close> for \<^verbatim>\<open>NaN\<close>. \<open>OtherAction\<close> stands for
  every action string that no case of the switch matches.
\<close>

record action_data =
  act :: action
  amount :: "int option"

text \<open>
  The \<^verbatim>\<open>switch (action)\<close> of the handler, on the acting player and the room. The
  third component is the value assigned to \<^verbatim>\<open>user.chips\<close>, if the case assigns one.
\<close>

definition actionSwitch :: "action_data \<Rightarrow> room \<Rightarrow> player \<Rightarrow> player \<times> room \<times> rat option" where
  "actionSwitch data r p =
     (case act data of
        Fold \<Rightarrow> (p\<lparr>folded := True\<rparr>, r, None)
      | Call \<Rightarrow>
          (let callAmount = currentBet r - bet p;
               actualCallAmount = min callAmount (chips p);
               p' = p\<lparr>bet := bet p + actualCallAmount, chips := chips p - actualCallAmount\<rparr>
           in (p', r\<lparr>pot := pot r + actualCallAmount\<rparr>, Some (chips p')))
      | Raise \<Rightarrow>
          (let raiseAmount = (case amount data of
                                None \<Rightarrow> bigBlind r
                              | Some a \<Rightarrow> if a = 0 then bigBlind r else of_int a);
               totalBet = currentBet r + raiseAmount;
               playerRaise = totalBet - bet p;
               actualRaise = min playerRaise (chips p);
               p' = p\<lparr>bet := bet p + actualRaise, chips := chips p - actualRaise\<rparr>
           in (p', r\<lparr>pot := pot r + actualRaise, currentBet := bet p'\<rparr>, Some (chips p')))
      | Check \<Rightarrow>
          (if currentBet r > bet p then
             (let callAmount = currentBet r - bet p;
                  actualCallAmount = min callAmount (chips p);
                  p' = p\<lparr>bet := bet p + actualCallAmount, chips := chips p - actualCallAmount\<rparr>
              in (p', r\<lparr>pot := pot r + actualCallAmount\<rparr>, Some (chips p')))
           else (p, r, None))
      | AllIn \<Rightarrow>
          (let r1 = r\<lparr>pot := pot r + chips p\<rparr>;
               p' = p\<lparr>bet := bet p + chips p, chips := 0, allIn := True\<rparr>
           in (p', if bet p' > currentBet r1 then r1\<lparr>currentBet := bet p'\<rparr> else r1, Some 0))
      | OtherAction \<Rightarrow> (p, r, None))"

text \<open>
  \<^verbatim>\<open>const user = users.get(socket.userId); ... user.chips = c\<close>: the assignment
  throws when the socket has no user.
\<close>

definition writeUserChips :: "world \<Rightarrow> socket \<Rightarrow> rat option \<Rightarrow> error + (string \<rightharpoonup> user)" where
  "writeUserChips w socket c =
     (case c of
        None \<Rightarrow> Inr (users w)
      | Some v \<Rightarrow>
          (case sock_userId socket of
             None \<Rightarrow> Inl TypeError
           | Some uid \<Rightarrow>
               (case users w uid of
                  None \<Rightarrow> Inl TypeError
                | Some u \<Rightarrow> Inr ((users w)(uid \<mapsto> u\<lparr>user_chips := v\<rparr>)))))"

text \<open>
  The \<^verbatim>\<open>player-action\<close> handler: the guards, the switch on the acting player (an
  object of \<^verbatim>\<open>room.players\<close>, so the seat is updated in place), then
  \<^verbatim>\<open>nextPlayer(roomId)\<close>. The first guard, \<^verbatim>\<open>if (!roomId) return\<close>, also
  stops on the empty string.
\<close>

definition playerAction :: "nat \<Rightarrow> rat \<Rightarrow> world \<Rightarrow> socket \<Rightarrow> action_data \<Rightarrow> (error + world) option" where
  "playerAction fuel x w socket data =
     (case currentRoom socket of
        None \<Rightarrow> Some (Inr w)
      | Some roomId \<Rightarrow>
          if roomId = [] then Some (Inr w)
          else
          (case gameRooms w roomId of
             None \<Rightarrow> Some (Inr w)
           | Some room \<Rightarrow>
               let playerIndex = findIndex (\<lambda>p. socketId p = sock_id socket) (players room)
               in if playerIndex = - 1 \<or> playerIndex \<noteq> currentPlayerIndex room
                  then Some (Inr w)
                  else
                    (case actionSwitch data room (players room ! nat playerIndex) of
                       (p', r', c) \<Rightarrow>
                         (case writeUserChips w socket c of
                            Inl e \<Rightarrow> Some (Inl e)
                          | Inr us \<Rightarrow>
                              nextPlayer fuel x
                                \<lparr>users = us,
                                 gameRooms = (gameRooms w)(roomId \<mapsto>
                                   r'\<lparr>players := (players r')[nat playerIndex := p']\<rparr>)\<rparr>
                                roomId))))"

section \<open>Reachable states\<close>

text \<open>
  The states of the server: it starts with both tables empty, and every event handler and
  timer callback that runs to its end leads to the next state. Sockets are not tracked:
  a handler may run with any socket record, and \<open>startNewGame\<close> may fire at any time,
  which covers every order in which the real events and timers can arrive. A handler that
  throws or never returns ends the process.
\<close>

inductive reachable :: "world \<Rightarrow> bool" where
  boot: "reachable \<lparr>users = Map.empty, gameRooms = Map.empty\<rparr>"
| on_authenticate: "reachable w \<Longrightarrow> reachable (fst (snd (authenticate w socket adata)))"
| on_join: "reachable w \<Longrightarrow> reachable (fst (snd (joinRoom w socket jdata)))"
| on_leave: "reachable w \<Longrightarrow> reachable (fst (leaveCurrentRoom w socket))"
| on_disconnect: "reachable w \<Longrightarrow> reachable (fst (disconnect w socket))"
| on_timer: "reachable w \<Longrightarrow> reachable (startNewGame rnd w roomId)"
| on_action: "reachable w \<Longrightarrow> playerAction fuel x w socket data = Some (Inr w')
     \<Longrightarrow> reachable w'"

section \<open>Notions used in the statements\<close>

text \<open>
  The number of community cards that goes with each phase, with enough cards left in the
  deck for the streets still to come. A waiting room holds no community cards before its
  first hand and the five cards of the last hand after a settlement.
\<close>

definition cardsOk :: "room \<Rightarrow> bool" where
  "cardsOk r =
     (case phase r of
        Waiting \<Rightarrow> length (communityCards r) = 0 \<or> length (communityCards r) = 5
      | Preflop \<Rightarrow> length (communityCards r) = 0 \<and> 5 \<le> length (deck r)
      | Flop \<Rightarrow> length (communityCards r) = 3 \<and> 2 \<le> length (deck r)
      | Turn \<Rightarrow> length (communityCards r) = 4 \<and> 1 \<le> length (deck r)
      | River \<Rightarrow> length (communityCards r) = 5
      | Showdown \<Rightarrow> length (communityCards r) = 5)"

text \<open>Rooms are created with six seats and never hold more players.\<close>

definition seatsOk :: "room \<Rightarrow> bool" where
  "seatsOk r = (maxPlayers r = 6 \<and> length (players r) \<le> 6)"

text \<open>The blind that the seat \<open>j\<close> posts at the start of a hand; 0 for the other seats.\<close>

definition blindDue :: "room \<Rightarrow> nat \<Rightarrow> rat" where
  "blindDue r j =
     (if j = (dealerIndex r + 1) mod length (players r) then smallBlind r
      else if j = (dealerIndex r + 2) mod length (players r) then bigBlind r
      else 0)"

text \<open>
  One round of \<open>nextPhase\<close> outside the river: the bets are reset, the next street is
  dealt and the scan for the first actor restarts at the dealer.
\<close>

definition advance :: "room \<Rightarrow> room" where
  "advance r = (streetSwitch (resetBets r))\<lparr>currentPlayerIndex := int (dealerIndex r)\<rparr>"

text \<open>The number of streets still to be dealt before the river.\<close>

fun streetsLeft :: "phase \<Rightarrow> nat" where
  "streetsLeft Preflop = 3"
| "streetsLeft Flop = 2"
| "streetsLeft Turn = 1"
| "streetsLeft _ = 0"

text \<open>A hand is in progress in the phases from the preflop to the river.\<close>

definition inHand :: "phase \<Rightarrow> bool" where
  "inHand ph = (ph = Preflop \<or> ph = Flop \<or> ph = Turn \<or> ph = River)"

text \<open>The room of a handler's result, when the handler returned normally.\<close>

definition roomAfter :: "(error + world) option \<Rightarrow> string \<Rightarrow> room option" where
  "roomAfter res roomId =
     (case res of Some (Inr w) \<Rightarrow> gameRooms w roomId | _ \<Rightarrow> None)"

text \<open>
  The room after the \<^verbatim>\<open>switch (action)\<close> of the \<^verbatim>\<open>player-action\<close> handler,
  when the player at seat \<open>i\<close> acts.
\<close>

definition switched :: "action_data \<Rightarrow> room \<Rightarrow> nat \<Rightarrow> room" where
  "switched data r i =
     (case actionSwitch data r (players r ! i) of
        (p', r', c) \<Rightarrow> r'\<lparr>players := (players r')[i := p']\<rparr>)"

text \<open>
  Amounts on which the arithmetic of the handlers is exact in doubles: multiples of one
  half of magnitude at most \<open>2^40\<close>. Sums and differences of a few such amounts stay
  below \<open>2^52\<close>.
\<close>

definition exactAmount :: "rat \<Rightarrow> bool" where
  "exactAmount v = (of_int \<lfloor>2 * v\<rfloor> = 2 * v \<and> \<bar>v\<bar> \<le> 2 ^ 40)"

definition exactRoom :: "room \<Rightarrow> bool" where
  "exactRoom r =
     (exactAmount (pot r) \<and> exactAmount (currentBet r) \<and> exactAmount (bigBlind r) \<and>
      exactAmount (smallBlind r) \<and>
      list_all (\<lambda>p. exactAmount (chips p) \<and> exactAmount (bet p)) (players r))"



text \<open>
  The room states that the server passes through: the rooms of the reachable states,
  which are the states between two events, and the states inside one run of the
  \<^verbatim>\<open>player-action\<close> handler. There the room is first changed by the
  \<^verbatim>\<open>switch\<close> on the current player; \<^verbatim>\<open>nextPhase\<close>, which
  \<^verbatim>\<open>nextPlayer\<close> calls when its scan finds no eligible player, then deals the
  next street, or at the river sets the phase to \<open>Showdown\<close> before it calls
  \<^verbatim>\<open>endGame\<close>. The room that \<^verbatim>\<open>endGame\<close> leaves behind belongs to
  the state after the event.
\<close>

inductive passes :: "room \<Rightarrow> bool" where
  rest: "reachable w \<Longrightarrow> gameRooms w roomId = Some r \<Longrightarrow> passes r"
| acted: "reachable w \<Longrightarrow> gameRooms w roomId = Some r \<Longrightarrow> i < length (players r)
     \<Longrightarrow> currentPlayerIndex r = int i \<Longrightarrow> passes (switched data r i)"
| street: "passes r \<Longrightarrow> \<forall>i < length (players r). \<not> eligible (players r ! i)
     \<Longrightarrow> phase r \<noteq> River \<Longrightarrow> passes (advance r)"
| showdown: "passes r \<Longrightarrow> \<forall>i < length (players r). \<not> eligible (players r ! i)
     \<Longrightarrow> phase r = River \<Longrightarrow> passes ((resetBets r)\<lparr>phase := Showdown\<rparr>)"

text \<open>The room that \<open>settle\<close> leaves behind when the player at \<open>seat\<close> wins.\<close>

definition settled :: "room \<Rightarrow> nat \<Rightarrow> room" where
  "settled r seat =
     r\<lparr>players := (players r)[seat :=
          (players r ! seat)\<lparr>chips := chips (players r ! seat) + pot r\<rparr>],
       phase := Waiting,
       dealerIndex := (dealerIndex r + 1) mod length (players r)\<rparr>"

text \<open>The chips in play: the pot and the stacks of the seated players.\<close>

definition chipsInPlay :: "room \<Rightarrow> rat" where
  "chipsInPlay r = pot r + sum_list (map chips (players r))"

definition roomsOk :: "world \<Rightarrow> bool" where
  "roomsOk w = (\<forall>k r. gameRooms w k = Some r \<longrightarrow> cardsOk r \<and> seatsOk r)"

section \<open>Example states\<close>

text \<open>Concrete users, players, sockets and rooms, for evaluating the handlers.\<close>

definition exUser :: "string \<Rightarrow> rat \<Rightarrow> user" where
  "exUser n c = \<lparr>user_id = n, password = ''pw'', user_chips = c,
     user_socketId = Some (''s-'' @ n)\<rparr>"

definition exPlayer :: "string \<Rightarrow> rat \<Rightarrow> player" where
  "exPlayer n c = \<lparr>userId = n, socketId = ''s-'' @ n, chips = c, cards = [], bet = 0,
     folded = False, allIn = False\<rparr>"

definition exSocket :: "string \<Rightarrow> string option \<Rightarrow> socket" where
  "exSocket n rid = \<lparr>sock_id = ''s-'' @ n, sock_userId = Some n, currentRoom = rid\<rparr>"

definition exRoom :: "rat \<Rightarrow> player list \<Rightarrow> room" where
  "exRoom bb ps = (createGameRoom ''r'' bb)\<lparr>players := ps\<rparr>"

definition exWorld :: "user list \<Rightarrow> room \<Rightarrow> world" where
  "exWorld us r = \<lparr>users = map_of (map (\<lambda>u. (user_id u, u)) us), gameRooms = [''r'' \<mapsto> r]\<rparr>"

text \<open>Players A (folded), B (all-in) and C (active), with A the current player.\<close>

definition turnRoom :: room where
  "turnRoom = (exRoom 100 [(exPlayer ''A'' 500)\<lparr>folded := True\<rparr>,
        (exPlayer ''B'' 0)\<lparr>allIn := True\<rparr>, exPlayer ''C'' 500])
          \<lparr>currentPlayerIndex := 0, phase := Preflop\<rparr>"

text \<open>A showdown with A still in the hand and B folded; the pot holds 150.\<close>

definition settleRoom :: room where
  "settleRoom = (exRoom 100 [exPlayer ''A'' 1000, (exPlayer ''B'' 900)\<lparr>folded := True\<rparr>])
     \<lparr>pot := 150, phase := Showdown\<rparr>"



text \<open>
  A heads-up hand with a big blind of 100 right after the blinds: A (dealer) has posted
  100, B has posted 50 and is to act.
\<close>

definition foldRoom :: room where
  "foldRoom = (exRoom 100 [(exPlayer ''A'' 9900)\<lparr>bet := 100\<rparr>, (exPlayer ''B'' 9950)\<lparr>bet := 50\<rparr>])
     \<lparr>pot := 150, currentBet := 100, currentPlayerIndex := 1, phase := Preflop\<rparr>"

definition foldWorld :: world where
  "foldWorld = exWorld [exUser ''A'' 9900, exUser ''B'' 9950] foldRoom"

text \<open>The same hand after B has folded, before the turn advances.\<close>

definition lastRoom :: room where
  "lastRoom = foldRoom\<lparr>players :=
     [(exPlayer ''A'' 9900)\<lparr>bet := 100\<rparr>, (exPlayer ''B'' 9950)\<lparr>bet := 50, folded := True\<rparr>]\<rparr>"

text \<open>
  A room between two hands: big blind 100, B was the dealer of the last hand, A is left
  with 60 chips and B has 19940.
\<close>

definition shortWorld :: world where
  "shortWorld = exWorld [exUser ''A'' 60, exUser ''B'' 19940]
     ((exRoom 100 [exPlayer ''A'' 60, exPlayer ''B'' 19940])\<lparr>dealerIndex := 1\<rparr>)"

text \<open>
  A heads-up room with a big blind of 100 after both players have joined, and the events
  of one hand in which both go all-in: the timer starts the hand, B (first to act) goes
  all-in, then A does.
\<close>

definition headsUpWorld :: world where
  "headsUpWorld = exWorld [exUser ''A'' 10000, exUser ''B'' 10000]
     (exRoom 100 [exPlayer ''A'' 10000, exPlayer ''B'' 10000])"

definition allInHand :: "(error + world) option" where
  "allInHand =
     (case playerAction 1 0 (startNewGame (\<lambda>k. 0) headsUpWorld ''r'')
             (exSocket ''B'' (Some ''r'')) \<lparr>act = AllIn, amount = None\<rparr> of
        Some (Inr w) \<Rightarrow>
          playerAction 8 0 w (exSocket ''A'' (Some ''r'')) \<lparr>act = AllIn, amount = None\<rparr>
      | other \<Rightarrow> other)"

text \<open>
  The events of a hand of the same room in which both players fold: the timer starts the
  hand, B (first to act) folds, then A does.
\<close>

definition bothFold :: "(error + world) option" where
  "bothFold =
     (case playerAction 1 0 (startNewGame (\<lambda>k. 0) headsUpWorld ''r'')
             (exSocket ''B'' (Some ''r'')) \<lparr>act = Fold, amount = None\<rparr> of
        Some (Inr w) \<Rightarrow>
          playerAction 8 0 w (exSocket ''A'' (Some ''r'')) \<lparr>act = Fold, amount = None\<rparr>
      | other \<Rightarrow> other)"

text \<open>
  The same room as the server reaches it: A and B register, each from a socket of their
  own, and join room \<open>r\<close> with a big blind of 100.
\<close>

definition registered :: world where
  "registered =
     fst (snd (authenticate
       (fst (snd (authenticate \<lparr>users = Map.empty, gameRooms = Map.empty\<rparr>
          \<lparr>sock_id = ''s-B'', sock_userId = None, currentRoom = None\<rparr>
          \<lparr>auth_userId = ''B'', auth_password = ''pw'', isRegistration = True\<rparr>)))
       \<lparr>sock_id = ''s-A'', sock_userId = None, currentRoom = None\<rparr>
       \<lparr>auth_userId = ''A'', auth_password = ''pw'', isRegistration = True\<rparr>))"

definition seated :: world where
  "seated =
     fst (snd (joinRoom
       (fst (snd (joinRoom registered (exSocket ''A'' None)
          \<lparr>req_roomId = ''r'', req_bigBlind = 100\<rparr>)))
       (exSocket ''B'' None) \<lparr>req_roomId = ''r'', req_bigBlind = 100\<rparr>))"

section \<open>Auxiliary facts\<close>

lemma findIndexFrom_cases:
  "findIndexFrom P i xs = - 1 \<and> (\<forall>x \<in> set xs. \<not> P x) \<or>
   (\<exists>k < length xs. findIndexFrom P i xs = int (i + k) \<and> P (xs ! k) \<and> (\<forall>j < k. \<not> P (xs ! j)))"
proof (induction xs arbitrary: i)
  case Nil
  then show ?case by simp
next
  case (Cons a xs)
  show ?case
  proof (cases "P a")
    case True
    then show ?thesis by auto
  next
    case False
    from Cons.IH[of "Suc i"] show ?thesis
    proof
      assume "findIndexFrom P (Suc i) xs = - 1 \<and> (\<forall>x\<in>set xs. \<not> P x)"
      with False show ?thesis by simp
    next
      assume "\<exists>k<length xs. findIndexFrom P (Suc i) xs = int (Suc i + k) \<and> P (xs ! k) \<and> (\<forall>j<k. \<not> P (xs ! j))"
      then obtain k where k: "k < length xs" "findIndexFrom P (Suc i) xs = int (Suc i + k)"
        "P (xs ! k)" "\<forall>j<k. \<not> P (xs ! j)" by blast
      have "\<forall>j<Suc k. \<not> P ((a # xs) ! j)"
        using False k(4) by (auto simp: nth_Cons split: nat.splits)
      with k False have "Suc k < length (a # xs) \<and> findIndexFrom P i (a # xs) = int (i + Suc k) \<and>
          P ((a # xs) ! Suc k) \<and> (\<forall>j<Suc k. \<not> P ((a # xs) ! j))" by simp
      then show ?thesis by blast
    qed
  qed
qed

lemma findIndex_cases:
  "findIndex P xs = - 1 \<and> (\<forall>x \<in> set xs. \<not> P x) \<or>
   (\<exists>k < length xs. findIndex P xs = int k \<and> P (xs ! k) \<and> (\<forall>j < k. \<not> P (xs ! j)))"
  using findIndexFrom_cases[of P 0 xs] by (simp add: findIndex_def)

subsection \<open>Hand start\<close>

lemma dealRound_length [simp]: "length (fst (dealRound ps d)) = length ps"
  by (induction ps arbitrary: d) (simp_all add: case_prod_beta)

lemma dealRound_chips [simp]: "map chips (fst (dealRound ps d)) = map chips ps"
  by (induction ps arbitrary: d) (simp_all add: case_prod_beta)

lemma dealRound_bet [simp]: "map bet (fst (dealRound ps d)) = map bet ps"
  by (induction ps arbitrary: d) (simp_all add: case_prod_beta)

lemma dealRound_deck: "length (snd (dealRound ps d)) = length d - length ps"
  by (induction ps arbitrary: d) (simp_all add: case_prod_beta)

lemma resetPlayers_length [simp]: "length (fst (resetPlayers r i ps us pt)) = length ps"
  by (induction ps arbitrary: i us pt) (simp_all add: Let_def case_prod_beta)

lemma resetPlayers_bet:
  "map bet (fst (resetPlayers r i ps us pt)) = map (blindDue r) [i..<i + length ps]"
proof (induction ps arbitrary: i us pt)
  case Nil
  then show ?case by simp
next
  case (Cons p ps)
  have "[i..<i + length (p # ps)] = i # [Suc i..<Suc i + length ps]"
    by (simp add: upt_rec)
  with Cons show ?case
    by (simp add: Let_def blindDue_def case_prod_beta)
qed

lemma resetPlayers_chips:
  "map chips (fst (resetPlayers r i ps us pt)) =
   map (\<lambda>(j, p). chips p - blindDue r j) (zip [i..<i + length ps] ps)"
proof (induction ps arbitrary: i us pt)
  case Nil
  then show ?case by simp
next
  case (Cons p ps)
  have "[i..<i + length (p # ps)] = i # [Suc i..<Suc i + length ps]"
    by (simp add: upt_rec)
  with Cons show ?case
    by (simp add: Let_def blindDue_def case_prod_beta)
qed

lemma resetPlayers_pot:
  "snd (snd (resetPlayers r i ps us pt)) = pt + sum_list (map (blindDue r) [i..<i + length ps])"
proof (induction ps arbitrary: i us pt)
  case Nil
  then show ?case by simp
next
  case (Cons p ps)
  have "[i..<i + length (p # ps)] = i # [Suc i..<Suc i + length ps]"
    by (simp add: upt_rec)
  with Cons show ?case
    by (simp add: Let_def blindDue_def case_prod_beta)
qed

lemma blinds_distinct:
  assumes "2 \<le> (n::nat)"
  shows "(d + 1) mod n \<noteq> (d + 2) mod n"
proof -
  have "(d + 2) mod n = Suc (d + 1) mod n" by simp
  also have "\<dots> = (if Suc ((d + 1) mod n) = n then 0 else Suc ((d + 1) mod n))"
    by (rule mod_Suc)
  finally show ?thesis using assms by (auto split: if_splits)
qed

lemma blindDue_total:
  assumes "2 \<le> length (players r)"
  shows "sum_list (map (blindDue r) [0..<length (players r)]) = smallBlind r + bigBlind r"
proof -
  let ?n = "length (players r)"
  let ?s = "(dealerIndex r + 1) mod ?n" and ?b = "(dealerIndex r + 2) mod ?n"
  have "0 < ?n" using assms by linarith
  then have s: "?s < ?n" and b: "?b < ?n" by (rule mod_less_divisor)+
  have ne: "?s \<noteq> ?b" using blinds_distinct[OF assms] .
  have "sum_list (map (blindDue r) [0..<?n]) = (\<Sum>j\<in>{0..<?n}. blindDue r j)"
    by (simp add: interv_sum_list_conv_sum_set_nat)
  also have "\<dots> = blindDue r ?s + (\<Sum>j\<in>{0..<?n} - {?s}. blindDue r j)"
    using s by (simp add: sum.remove)
  also have "(\<Sum>j\<in>{0..<?n} - {?s}. blindDue r j) =
      blindDue r ?b + (\<Sum>j\<in>{0..<?n} - {?s} - {?b}. blindDue r j)"
    using b ne by (simp add: sum.remove)
  also have "(\<Sum>j\<in>{0..<?n} - {?s} - {?b}. blindDue r j) = 0"
    by (rule sum.neutral) (simp add: blindDue_def)
  finally have "sum_list (map (blindDue r) [0..<?n]) = blindDue r ?s + (blindDue r ?b + 0)" .
  moreover have "blindDue r ?s = smallBlind r" by (simp add: blindDue_def)
  moreover have "blindDue r ?b = bigBlind r" using ne by (simp add: blindDue_def)
  ultimately show ?thesis by simp
qed


lemma field_at_seat:
  assumes "map f ps = map g qs" and "i < length ps"
  shows "f (ps ! i) = g (qs ! i)"
  using assms by (metis length_map nth_map)

subsection \<open>Turn scan\<close>

lemma nextPlayerLoop_found:
  assumes "s < length ps"
    and "k < length ps - a"
    and "eligible (ps ! ((s + k) mod length ps))"
    and "\<forall>j < k. \<not> eligible (ps ! ((s + j) mod length ps))"
  shows "nextPlayerLoop ps s a = Some ((s + k) mod length ps)"
  using assms
proof (induction k arbitrary: s a)
  case 0
  then show ?case by (subst nextPlayerLoop.simps) simp
next
  case (Suc k)
  let ?s = "(s + 1) mod length ps"
  have n: "0 < length ps" using Suc.prems(1) by linarith
  have shift: "(?s + j) mod length ps = (s + Suc j) mod length ps" for j
    by (simp add: mod_add_left_eq)
  have not0: "\<not> eligible (ps ! s)"
    using Suc.prems(1,4) by (metis add.right_neutral mod_less zero_less_Suc)
  have "nextPlayerLoop ps ?s (a + 1) = Some ((?s + k) mod length ps)"
  proof (rule Suc.IH)
    show "?s < length ps" using n by simp
    show "k < length ps - (a + 1)" using Suc.prems(2) by simp
    show "eligible (ps ! ((?s + k) mod length ps))" using Suc.prems(3) by (simp only: shift)
    show "\<forall>j<k. \<not> eligible (ps ! ((?s + j) mod length ps))"
      using Suc.prems(4) by (simp only: shift) auto
  qed
  moreover have "a < length ps" using Suc.prems(2) by simp
  ultimately show ?case
    using not0 by (subst nextPlayerLoop.simps) (simp only: shift if_True if_False)
qed

lemma nextPlayerLoop_none:
  assumes "\<forall>i < length ps. \<not> eligible (ps ! i)" and "s < length ps \<or> length ps \<le> a"
  shows "nextPlayerLoop ps s a = None"
  using assms
proof (induction ps s a rule: nextPlayerLoop.induct)
  case (1 ps nextIndex attempts)
  show ?case
  proof (cases "attempts < length ps")
    case True
    with "1.prems" have s: "nextIndex < length ps" by simp
    with "1.prems" have ne: "\<not> eligible (ps ! nextIndex)" by simp
    have "0 < length ps" using s by linarith
    then have "(nextIndex + 1) mod length ps < length ps" by (rule mod_less_divisor)
    then have "nextPlayerLoop ps ((nextIndex + 1) mod length ps) (attempts + 1) = None"
      using "1.IH"[OF True ne] "1.prems"(1) by blast
    with True ne show ?thesis by (subst nextPlayerLoop.simps) simp
  next
    case False
    then show ?thesis by (subst nextPlayerLoop.simps) simp
  qed
qed

lemma jsRem_nonneg: "0 \<le> a \<Longrightarrow> 0 < n \<Longrightarrow> nat (jsRem a (int n)) = nat a mod n \<and> 0 \<le> jsRem a (int n)"
  by (simp add: jsRem_def nat_mod_distrib)

subsection \<open>Settlement\<close>

lemma activeSeats_set: "set (activeSeats ps) = {i. i < length ps \<and> \<not> folded (ps ! i)}"
  by (auto simp: activeSeats_def)

lemma activeSeats_nonempty:
  assumes "\<exists>p \<in> set ps. \<not> folded p"
  shows "0 < length (activeSeats ps)"
proof -
  from assms obtain i where "i < length ps" "\<not> folded (ps ! i)"
    by (auto simp: in_set_conv_nth)
  then have "i \<in> set (activeSeats ps)" by (simp add: activeSeats_set)
  then show ?thesis by (cases "activeSeats ps") auto
qed

lemma distinct_singleton:
  assumes "set xs = {i}" and "distinct xs"
  shows "xs = [i]"
proof (cases xs)
  case Nil
  with assms show ?thesis by simp
next
  case (Cons a ys)
  with assms have a: "a = i" and sub: "set ys \<subseteq> {i}" and notin: "a \<notin> set ys" by auto
  then have "ys = []" by (cases ys) auto
  with Cons a show ?thesis by simp
qed

lemma random_index:
  assumes "0 \<le> (x::rat)" "x < 1" "0 < (n::nat)"
  shows "0 \<le> \<lfloor>x * of_nat n\<rfloor> \<and> \<lfloor>x * of_nat n\<rfloor> < int n"
proof -
  have "0 \<le> x * of_nat n" using assms by simp
  moreover have "x * of_nat n < of_nat n" using assms by simp
  ultimately show ?thesis by (simp add: floor_less_iff)
qed

text \<open>The result of \<open>endGame\<close> when the player at \<open>seat\<close> wins.\<close>

lemma endGame_unfold:
  assumes "gameRooms w roomId = Some room"
  shows "endGame x w roomId =
     (let k = (if length (activeSeats (players room)) = 1 then 0
               else \<lfloor>x * of_nat (length (activeSeats (players room)))\<rfloor>)
      in if 0 \<le> k \<and> k < int (length (activeSeats (players room)))
         then Inr (settle w roomId room (activeSeats (players room) ! nat k))
         else Inl TypeError)"
  using assms by (simp add: endGame_def settle_def Let_def)

subsection \<open>Turn and phase engine\<close>

lemma nextPlayer_unfold:
  assumes room: "gameRooms w roomId = Some room"
    and cur: "- 1 \<le> currentPlayerIndex room"
  shows "nextPlayer (Suc fuel) x w roomId =
      (case nextPlayerLoop (players room)
              (nat (currentPlayerIndex room + 1) mod length (players room)) 0 of
         Some nextIndex \<Rightarrow>
           Some (Inr (setRoom w roomId (room\<lparr>currentPlayerIndex := int nextIndex\<rparr>)))
       | None \<Rightarrow> nextPhase fuel x w roomId)"
proof (cases "0 < length (players room)")
  case True
  then show ?thesis
    using jsRem_nonneg[of "currentPlayerIndex room + 1" "length (players room)"] cur room
    by (simp add: Let_def)
next
  case False
  then have "nextPlayerLoop (players room) s 0 = None" for s
    by (subst nextPlayerLoop.simps) simp
  with False room show ?thesis by (simp add: Let_def)
qed

lemma nextPlayer_found:
  assumes room: "gameRooms w roomId = Some room"
    and cur: "- 1 \<le> currentPlayerIndex room"
    and k: "k < length (players room)"
    and e: "eligible (players room !
              ((nat (currentPlayerIndex room + 1) + k) mod length (players room)))"
    and first: "\<forall>j < k. \<not> eligible (players room !
              ((nat (currentPlayerIndex room + 1) + j) mod length (players room)))"
  shows "nextPlayer (Suc fuel) x w roomId =
      Some (Inr (setRoom w roomId (room\<lparr>currentPlayerIndex :=
        int ((nat (currentPlayerIndex room + 1) + k) mod length (players room))\<rparr>)))"
proof -
  let ?ps = "players room" and ?c = "nat (currentPlayerIndex room + 1)"
  let ?n = "length ?ps"
  let ?s = "?c mod ?n"
  have "0 < ?n" using k by linarith
  then have s: "?s < ?n" by (rule mod_less_divisor)
  have shift: "(?s + j) mod ?n = (?c + j) mod ?n" for j
    by (simp add: mod_add_left_eq)
  have "nextPlayerLoop ?ps ?s 0 = Some ((?s + k) mod ?n)"
    using s k e first by (intro nextPlayerLoop_found) (simp_all only: shift minus_nat.diff_0)
  then show ?thesis by (simp only: nextPlayer_unfold[OF room cur] shift option.case)
qed

lemma nextPlayer_none:
  assumes room: "gameRooms w roomId = Some room"
    and cur: "- 1 \<le> currentPlayerIndex room"
    and none: "\<forall>i < length (players room). \<not> eligible (players room ! i)"
  shows "nextPlayer (Suc fuel) x w roomId = nextPhase fuel x w roomId"
proof -
  let ?n = "length (players room)"
  let ?s = "nat (currentPlayerIndex room + 1) mod ?n"
  have "nextPlayerLoop (players room) ?s 0 = None"
  proof (cases "0 < ?n")
    case True
    then have "?s < ?n" by (rule mod_less_divisor)
    with none show ?thesis by (intro nextPlayerLoop_none) simp_all
  next
    case False
    then show ?thesis by (subst nextPlayerLoop.simps) simp
  qed
  then show ?thesis by (simp only: nextPlayer_unfold[OF room cur] option.case)
qed

lemma gameRooms_setRoom [simp]:
  "gameRooms (setRoom w roomId r) k = (if k = roomId then Some r else gameRooms w k)"
  by (simp add: setRoom_def)

lemma users_setRoom [simp]: "users (setRoom w roomId r) = users w"
  by (simp add: setRoom_def)

lemma setRoom_twice [simp]: "setRoom (setRoom w roomId a) roomId b = setRoom w roomId b"
  by (simp add: setRoom_def)

lemma eligible_bet [simp]: "eligible (p\<lparr>bet := b\<rparr>) = eligible p"
  by (simp add: eligible_def)

lemma streetSwitch_fields [simp]:
  "players (streetSwitch r) = players r"
  "pot (streetSwitch r) = pot r"
  "dealerIndex (streetSwitch r) = dealerIndex r"
  "currentBet (streetSwitch r) = currentBet r"
  by (simp_all add: streetSwitch_def dealCommunity_def split: phase.splits)

lemma phase_streetSwitch:
  "phase (streetSwitch r) =
     (case phase r of Preflop \<Rightarrow> Flop | Flop \<Rightarrow> Turn | Turn \<Rightarrow> River | ph \<Rightarrow> ph)"
  by (simp add: streetSwitch_def dealCommunity_def split: phase.splits)

lemma advance_fields [simp]:
  "players (advance r) = map (\<lambda>p. p\<lparr>bet := 0\<rparr>) (players r)"
  "pot (advance r) = pot r"
  "dealerIndex (advance r) = dealerIndex r"
  "currentPlayerIndex (advance r) = int (dealerIndex r)"
  by (simp_all add: advance_def resetBets_def)

lemma phase_advance:
  "phase (advance r) =
     (case phase r of Preflop \<Rightarrow> Flop | Flop \<Rightarrow> Turn | Turn \<Rightarrow> River | ph \<Rightarrow> ph)"
  by (simp add: advance_def phase_streetSwitch resetBets_def)

lemma nextPhase_river:
  assumes "gameRooms w roomId = Some r" and "phase r = River"
  shows "nextPhase (Suc fuel) x w roomId =
     Some (endGame x (setRoom w roomId ((resetBets r)\<lparr>phase := Showdown\<rparr>)) roomId)"
  using assms by (simp add: Let_def resetBets_def)

lemma nextPhase_street:
  assumes "gameRooms w roomId = Some r" and "phase r \<noteq> River"
  shows "nextPhase (Suc fuel) x w roomId = nextPlayer fuel x (setRoom w roomId (advance r)) roomId"
  using assms by (simp add: Let_def advance_def resetBets_def)

lemma nextPhase_skip:
  assumes room: "gameRooms w roomId = Some r" and ph: "phase r \<noteq> River"
    and none: "\<forall>i < length (players r). \<not> eligible (players r ! i)"
  shows "nextPhase (Suc (Suc fuel)) x w roomId = nextPhase fuel x (setRoom w roomId (advance r)) roomId"
proof -
  have "nextPlayer (Suc fuel) x (setRoom w roomId (advance r)) roomId =
      nextPhase fuel x (setRoom w roomId (advance r)) roomId"
    using none by (intro nextPlayer_none[where room = "advance r"]) simp_all
  then show ?thesis by (simp only: nextPhase_street[OF room ph])
qed

lemma funpow_advance_fields:
  "map chips (players ((advance ^^ n) r)) = map chips (players r)"
  "map folded (players ((advance ^^ n) r)) = map folded (players r)"
  "map allIn (players ((advance ^^ n) r)) = map allIn (players r)"
  "map userId (players ((advance ^^ n) r)) = map userId (players r)"
  "pot ((advance ^^ n) r) = pot r"
  "dealerIndex ((advance ^^ n) r) = dealerIndex r"
  by (induction n) (simp_all add: comp_def)

lemma run_to_showdown:
  assumes "gameRooms w roomId = Some r" and "inHand (phase r)"
    and "\<forall>i < length (players r). \<not> eligible (players r ! i)"
    and "streetsLeft (phase r) = n"
  shows "nextPhase (Suc (2 * n + fuel)) x w roomId =
     Some (endGame x (setRoom w roomId
        ((resetBets ((advance ^^ n) r))\<lparr>phase := Showdown\<rparr>)) roomId)"
  using assms
proof (induction n arbitrary: r w)
  case 0
  then have "phase r = River" by (cases "phase r") (simp_all add: inHand_def)
  with "0.prems"(1) show ?case by (simp add: nextPhase_river del: nextPhase.simps)
next
  case (Suc n)
  then have ph: "phase r \<noteq> River" by (cases "phase r") simp_all
  have left: "streetsLeft (phase (advance r)) = n" and hand: "inHand (phase (advance r))"
    using Suc.prems(2,4) by (cases "phase r"; simp add: phase_advance inHand_def)+
  have none: "\<forall>i < length (players (advance r)). \<not> eligible (players (advance r) ! i)"
    using Suc.prems(3) by simp
  have "nextPhase (Suc (2 * Suc n + fuel)) x w roomId =
      nextPhase (Suc (2 * n + fuel)) x (setRoom w roomId (advance r)) roomId"
    using nextPhase_skip[OF Suc.prems(1) ph Suc.prems(3), of "Suc (2 * n + fuel)" x] by simp
  also have "\<dots> = Some (endGame x (setRoom (setRoom w roomId (advance r)) roomId
        ((resetBets ((advance ^^ n) (advance r)))\<lparr>phase := Showdown\<rparr>)) roomId)"
    by (rule Suc.IH[OF _ hand none left]) simp
  finally show ?case by (simp add: funpow_swap1 del: nextPhase.simps)
qed

lemma activeSeats_cong:
  assumes "map folded ps = map folded qs"
  shows "activeSeats ps = activeSeats qs"
proof -
  have len: "length ps = length qs" using assms by (metis length_map)
  have "folded (ps ! i) = folded (qs ! i)" if "i < length ps" for i
    using field_at_seat[OF assms that] .
  then show ?thesis
    unfolding activeSeats_def len[symmetric] by (intro filter_cong) simp_all
qed

lemma endGame_result:
  assumes "endGame x w roomId = Inr w'" and "gameRooms w roomId = Some r"
  shows "\<exists>seat. w' = settle w roomId r seat \<and> seat < length (players r) \<and>
     \<not> folded (players r ! seat)"
proof -
  let ?act = "activeSeats (players r)"
  define k where "k = (if length ?act = 1 then 0 else \<lfloor>x * of_nat (length ?act)\<rfloor>)"
  have e: "endGame x w roomId =
      (if 0 \<le> k \<and> k < int (length ?act) then Inr (settle w roomId r (?act ! nat k))
       else Inl TypeError)"
    unfolding endGame_unfold[OF assms(2)] Let_def k_def by (rule refl)
  with assms(1) have k: "0 \<le> k \<and> k < int (length ?act)" by (simp split: if_splits)
  with e assms(1) have w': "w' = settle w roomId r (?act ! nat k)" by simp
  from k have "nat k < length ?act" by linarith
  then have "?act ! nat k \<in> set ?act" by (rule nth_mem)
  then have "?act ! nat k < length (players r) \<and> \<not> folded (players r ! (?act ! nat k))"
    by (simp add: activeSeats_set)
  with w' show ?thesis by blast
qed

lemma settle_fields [simp]:
  "gameRooms (settle w roomId r seat) k =
     (if k = roomId then Some (settled r seat) else gameRooms w k)"
  by (simp add: settle_def settled_def Let_def)

lemma settled_fields [simp]:
  "phase (settled r seat) = Waiting"
  "communityCards (settled r seat) = communityCards r"
  "deck (settled r seat) = deck r"
  "maxPlayers (settled r seat) = maxPlayers r"
  "length (players (settled r seat)) = length (players r)"
  by (simp_all add: settled_def)

text \<open>
  A property of rooms that survives a change of the current player, a phase advance and
  the settlement at the river survives the turn and phase engine.
\<close>

lemma engine_invariant:
  fixes I :: "room \<Rightarrow> bool"
  assumes cpi: "\<And>r i. I r \<Longrightarrow> I (r\<lparr>currentPlayerIndex := i\<rparr>)"
    and street: "\<And>r. I r \<Longrightarrow> I (advance r)"
    and river: "\<And>r seat. I r \<Longrightarrow> phase r = River \<Longrightarrow> seat < length (players r) \<Longrightarrow>
        I (settled ((resetBets r)\<lparr>phase := Showdown\<rparr>) seat)"
  shows "\<forall>w r. gameRooms w roomId = Some r \<longrightarrow> I r \<longrightarrow>
      (nextPlayer fuel x w roomId = Some (Inr w') \<longrightarrow>
         (\<exists>r'. gameRooms w' roomId = Some r' \<and> I r')) \<and>
      (nextPhase fuel x w roomId = Some (Inr w') \<longrightarrow>
         (\<exists>r'. gameRooms w' roomId = Some r' \<and> I r'))"
proof (induction fuel)
  case 0
  show ?case by simp
next
  case (Suc fuel)
  show ?case
  proof (intro allI impI conjI)
    fix w r
    assume room: "gameRooms w roomId = Some r" and inv: "I r"
      and res: "nextPlayer (Suc fuel) x w roomId = Some (Inr w')"
    show "\<exists>r'. gameRooms w' roomId = Some r' \<and> I r'"
    proof (cases "nextPlayerLoop (players r)
        (nat (jsRem (currentPlayerIndex r + 1) (int (length (players r))))) 0")
      case None
      with res room have "nextPhase fuel x w roomId = Some (Inr w')"
        by (simp add: Let_def split: if_splits)
      with Suc.IH room inv show ?thesis by blast
    next
      case (Some nextIndex)
      with res room have "w' = setRoom w roomId (r\<lparr>currentPlayerIndex := int nextIndex\<rparr>)"
        by (simp add: Let_def split: if_splits)
      with cpi[OF inv] show ?thesis by simp
    qed
  next
    fix w r
    assume room: "gameRooms w roomId = Some r" and inv: "I r"
      and res: "nextPhase (Suc fuel) x w roomId = Some (Inr w')"
    show "\<exists>r'. gameRooms w' roomId = Some r' \<and> I r'"
    proof (cases "phase r = River")
      case True
      let ?w = "setRoom w roomId ((resetBets r)\<lparr>phase := Showdown\<rparr>)"
      from res have "endGame x ?w roomId = Inr w'"
        by (simp only: nextPhase_river[OF room True] option.inject)
      then obtain seat where "w' = settle ?w roomId ((resetBets r)\<lparr>phase := Showdown\<rparr>) seat"
        and "seat < length (players r)"
        using endGame_result[of x ?w roomId w'] by (auto simp: resetBets_def)
      then show ?thesis using river[OF inv True] by simp
    next
      case False
      from res have "nextPlayer fuel x (setRoom w roomId (advance r)) roomId = Some (Inr w')"
        by (simp only: nextPhase_street[OF room False])
      moreover have "gameRooms (setRoom w roomId (advance r)) roomId = Some (advance r)" by simp
      ultimately show ?thesis using Suc.IH street[OF inv] by blast
    qed
  qed
qed

lemma engine_other_rooms:
  "\<forall>w. k \<noteq> roomId \<longrightarrow>
      (nextPlayer fuel x w roomId = Some (Inr w') \<longrightarrow> gameRooms w' k = gameRooms w k) \<and>
      (nextPhase fuel x w roomId = Some (Inr w') \<longrightarrow> gameRooms w' k = gameRooms w k)"
proof (induction fuel)
  case 0
  show ?case by simp
next
  case (Suc fuel)
  show ?case
  proof (intro allI impI conjI)
    fix w
    assume ne: "k \<noteq> roomId" and res: "nextPlayer (Suc fuel) x w roomId = Some (Inr w')"
    show "gameRooms w' k = gameRooms w k"
    proof (cases "gameRooms w roomId")
      case None
      with res show ?thesis by simp
    next
      case (Some r)
      show ?thesis
      proof (cases "nextPlayerLoop (players r)
          (nat (jsRem (currentPlayerIndex r + 1) (int (length (players r))))) 0")
        case None
        with res Some have "nextPhase fuel x w roomId = Some (Inr w')"
          by (simp add: Let_def split: if_splits)
        with Suc.IH ne show ?thesis by blast
      next
        case (Some nextIndex)
        with res \<open>gameRooms w roomId = Some r\<close>
        have "w' = setRoom w roomId (r\<lparr>currentPlayerIndex := int nextIndex\<rparr>)"
          by (simp add: Let_def split: if_splits)
        with ne show ?thesis by simp
      qed
    qed
  next
    fix w
    assume ne: "k \<noteq> roomId" and res: "nextPhase (Suc fuel) x w roomId = Some (Inr w')"
    show "gameRooms w' k = gameRooms w k"
    proof (cases "gameRooms w roomId")
      case None
      with res show ?thesis by simp
    next
      case (Some r)
      show ?thesis
      proof (cases "phase r = River")
        case True
        let ?w = "setRoom w roomId ((resetBets r)\<lparr>phase := Showdown\<rparr>)"
        from res have "endGame x ?w roomId = Inr w'"
          by (simp only: nextPhase_river[OF Some True] option.inject)
        then obtain seat where "w' = settle ?w roomId ((resetBets r)\<lparr>phase := Showdown\<rparr>) seat"
          using endGame_result[of x ?w roomId w'] by auto
        with ne show ?thesis by simp
      next
        case False
        from res have "nextPlayer fuel x (setRoom w roomId (advance r)) roomId = Some (Inr w')"
          by (simp only: nextPhase_street[OF Some False])
        with Suc.IH ne have "gameRooms w' k = gameRooms (setRoom w roomId (advance r)) k"
          by blast
        with ne show ?thesis by simp
      qed
    qed
  qed
qed

subsection \<open>The action handler\<close>

lemma playerAction_cases:
  assumes "playerAction fuel x w socket data = Some (Inr w')"
  shows "w' = w \<or>
    (\<exists>roomId r i us. currentRoom socket = Some roomId \<and> gameRooms w roomId = Some r \<and>
       i < length (players r) \<and> int i = currentPlayerIndex r \<and>
       socketId (players r ! i) = sock_id socket \<and>
       nextPlayer fuel x \<lparr>users = us, gameRooms = (gameRooms w)(roomId \<mapsto> switched data r i)\<rparr>
         roomId = Some (Inr w'))"
proof (cases "currentRoom socket")
  case None
  with assms show ?thesis by (simp add: playerAction_def)
next
  case (Some roomId)
  show ?thesis
  proof (cases "gameRooms w roomId")
    case None
    with assms Some show ?thesis by (simp add: playerAction_def split: if_splits)
  next
    case room: (Some r)
    let ?P = "\<lambda>p. socketId p = sock_id socket"
    let ?pi = "findIndex ?P (players r)"
    show ?thesis
    proof (cases "roomId = [] \<or> ?pi = - 1 \<or> ?pi \<noteq> currentPlayerIndex r")
      case True
      with assms Some room show ?thesis by (auto simp: playerAction_def Let_def split: if_splits)
    next
      case False
      then obtain i where i: "i < length (players r)" "?pi = int i" "?P (players r ! i)"
        using findIndex_cases[of ?P "players r"] by auto
      with False have cur: "int i = currentPlayerIndex r" by simp
      obtain p' r' c where sw: "actionSwitch data r (players r ! i) = (p', r', c)"
        by (cases "actionSwitch data r (players r ! i)") auto
      then have swd: "switched data r i = r'\<lparr>players := (players r')[i := p']\<rparr>"
        by (simp add: switched_def)
      from cur have cur': "currentPlayerIndex r = int i" by simp
      from False have nonempty: "roomId \<noteq> []" by simp
      from assms Some room i(2) cur' sw nonempty
      obtain us where "nextPlayer fuel x
          \<lparr>users = us, gameRooms = (gameRooms w)(roomId \<mapsto> r'\<lparr>players := (players r')[i := p']\<rparr>)\<rparr>
          roomId = Some (Inr w')"
        by (auto simp: playerAction_def Let_def split: sum.splits)
      then have "nextPlayer fuel x
          \<lparr>users = us, gameRooms = (gameRooms w)(roomId \<mapsto> switched data r i)\<rparr>
          roomId = Some (Inr w')"
        by (simp only: swd)
      with Some room i(1,3) cur show ?thesis by blast
    qed
  qed
qed

lemma playerAction_invariant:
  fixes I :: "room \<Rightarrow> bool"
  assumes cpi: "\<And>r i. I r \<Longrightarrow> I (r\<lparr>currentPlayerIndex := i\<rparr>)"
    and street: "\<And>r. I r \<Longrightarrow> I (advance r)"
    and river: "\<And>r seat. I r \<Longrightarrow> phase r = River \<Longrightarrow> seat < length (players r) \<Longrightarrow>
        I (settled ((resetBets r)\<lparr>phase := Showdown\<rparr>) seat)"
    and switch: "\<And>r i. I r \<Longrightarrow> i < length (players r) \<Longrightarrow> I (switched data r i)"
    and res: "playerAction fuel x w socket data = Some (Inr w')"
    and room: "gameRooms w k = Some r" and inv: "I r"
  shows "\<exists>r'. gameRooms w' k = Some r' \<and> I r'"
proof -
  from playerAction_cases[OF res] show ?thesis
  proof
    assume "w' = w"
    with room inv show ?thesis by simp
  next
    assume "\<exists>roomId r i us. currentRoom socket = Some roomId \<and> gameRooms w roomId = Some r \<and>
       i < length (players r) \<and> int i = currentPlayerIndex r \<and>
       socketId (players r ! i) = sock_id socket \<and>
       nextPlayer fuel x \<lparr>users = us, gameRooms = (gameRooms w)(roomId \<mapsto> switched data r i)\<rparr>
         roomId = Some (Inr w')"
    then obtain roomId r0 i us where r0: "gameRooms w roomId = Some r0" and i: "i < length (players r0)"
      and np: "nextPlayer fuel x \<lparr>users = us, gameRooms = (gameRooms w)(roomId \<mapsto> switched data r0 i)\<rparr>
         roomId = Some (Inr w')"
      by blast
    let ?w = "\<lparr>users = us, gameRooms = (gameRooms w)(roomId \<mapsto> switched data r0 i)\<rparr>"
    show ?thesis
    proof (cases "k = roomId")
      case True
      with room r0 have "r0 = r" by simp
      with inv i have "I (switched data r0 i)" by (intro switch) simp_all
      moreover have "gameRooms ?w roomId = Some (switched data r0 i)" by simp
      ultimately show ?thesis
        using engine_invariant[of I roomId fuel x w', OF cpi street river] np True by blast
    next
      case False
      with engine_other_rooms[of k roomId fuel x w'] np
      have "gameRooms w' k = gameRooms ?w k" by blast
      with False room inv show ?thesis by simp
    qed
  qed
qed

subsection \<open>Chips in play\<close>

lemma sum_chips_update:
  "i < length ps \<Longrightarrow>
     sum_list (map chips (ps[i := p])) = sum_list (map chips ps) - chips (ps ! i) + chips p"
proof (induction ps arbitrary: i)
  case Nil
  then show ?case by simp
next
  case (Cons q ps)
  then show ?case by (cases i) simp_all
qed

lemma switched_phase [simp]: "phase (switched data r i) = phase r"
  by (simp add: switched_def actionSwitch_def Let_def split: action.splits)

lemma switched_cards [simp]:
  "communityCards (switched data r i) = communityCards r"
  "deck (switched data r i) = deck r"
  by (simp_all add: switched_def actionSwitch_def Let_def split: action.splits)

lemma switched_chipsInPlay:
  assumes "i < length (players r)"
  shows "chipsInPlay (switched data r i) = chipsInPlay r"
  using assms
  by (cases "act data")
     (simp_all add: switched_def actionSwitch_def Let_def chipsInPlay_def sum_chips_update)

lemma advance_chipsInPlay [simp]: "chipsInPlay (advance r) = chipsInPlay r"
  by (simp add: chipsInPlay_def comp_def)



lemma sum_chips_resetBets [simp]:
  "map chips (players (resetBets r)) = map chips (players r)"
  by (simp add: resetBets_def comp_def)

lemma settled_chips:
  assumes "seat < length (players r)"
  shows "sum_list (map chips (players (settled r seat))) = chipsInPlay r"
  using assms by (simp add: settled_def chipsInPlay_def sum_chips_update)

text \<open>
  The turn and phase engine keeps the chips in play while the hand goes on, and the
  settlement moves the pot into the winner's stack.
\<close>

lemma engine_chips:
  assumes np: "nextPlayer fuel x w roomId = Some (Inr w')"
    and room: "gameRooms w roomId = Some r" and hand: "phase r \<noteq> Waiting"
  shows "\<exists>r'. gameRooms w' roomId = Some r' \<and>
     (phase r' \<noteq> Waiting \<longrightarrow> chipsInPlay r' = chipsInPlay r) \<and>
     (phase r' = Waiting \<longrightarrow> sum_list (map chips (players r')) = chipsInPlay r)"
proof -
  define c where "c = chipsInPlay r"
  define I where "I = (\<lambda>q::room. (phase q \<noteq> Waiting \<longrightarrow> chipsInPlay q = c) \<and>
      (phase q = Waiting \<longrightarrow> sum_list (map chips (players q)) = c))"
  have cpi: "I (q\<lparr>currentPlayerIndex := i\<rparr>)" if "I q" for q :: room and i
    using that by (simp add: I_def chipsInPlay_def)
  have street: "I (advance q)" if "I q" for q :: room
  proof -
    have "phase (advance q) = Waiting \<longleftrightarrow> phase q = Waiting"
      by (cases "phase q") (simp_all add: phase_advance)
    moreover have "sum_list (map chips (players (advance q))) = sum_list (map chips (players q))"
      by (simp add: comp_def)
    ultimately show ?thesis using that by (simp add: I_def)
  qed
  have river: "I (settled ((resetBets q)\<lparr>phase := Showdown\<rparr>) seat)"
    if "I q" "phase q = River" "seat < length (players q)" for q :: room and seat
  proof -
    let ?F = "(resetBets q)\<lparr>phase := Showdown\<rparr>"
    have "seat < length (players ?F)" using that(3) by (simp add: resetBets_def)
    then have "sum_list (map chips (players (settled ?F seat))) = chipsInPlay ?F"
      by (rule settled_chips)
    also have "chipsInPlay ?F = chipsInPlay q" by (simp add: chipsInPlay_def resetBets_def comp_def)
    also have "\<dots> = c" using that(1,2) by (simp add: I_def)
    finally show ?thesis by (simp add: I_def)
  qed
  have "I r" using hand by (simp add: I_def c_def)
  with engine_invariant[of I roomId fuel x w', OF cpi street river] room np
  have "\<exists>r'. gameRooms w' roomId = Some r' \<and> I r'" by blast
  then show ?thesis by (simp add: I_def c_def)
qed



subsection \<open>Evaluating the examples\<close>

lemmas example_defs = exWorld_def exRoom_def exPlayer_def exUser_def exSocket_def createGameRoom_def


subsection \<open>The last player in the hand\<close>

lemma scan_reaches:
  assumes "i < (n::nat)"
  shows "\<exists>k < n. (c + k) mod n = i \<and> (\<forall>j < k. (c + j) mod n \<noteq> i)"
proof -
  let ?k0 = "(i + (n - c mod n)) mod n"
  have n: "0 < n" using assms by linarith
  then have cm: "c mod n < n" by (rule mod_less_divisor)
  have "(c + ?k0) mod n = (c mod n + (i + (n - c mod n))) mod n"
    by (simp only: mod_add_right_eq mod_add_left_eq)
  also have "c mod n + (i + (n - c mod n)) = i + n" using cm by simp
  also have "(i + n) mod n = i" using assms by simp
  finally have k0: "(c + ?k0) mod n = i" .
  define k where "k = (LEAST k. (c + k) mod n = i)"
  have hit: "(c + k) mod n = i" unfolding k_def using k0 by (rule LeastI)
  have "k \<le> ?k0" unfolding k_def using k0 by (rule Least_le)
  moreover have "?k0 < n" using n by (rule mod_less_divisor)
  ultimately have "k < n" by linarith
  moreover have "(c + j) mod n \<noteq> i" if "j < k" for j
    using that not_less_Least unfolding k_def by blast
  ultimately show ?thesis using hit by blast
qed

lemma showdown_room_fields:
  "map chips (players ((resetBets ((advance ^^ n) r))\<lparr>phase := Showdown\<rparr>)) = map chips (players r)"
  "map folded (players ((resetBets ((advance ^^ n) r))\<lparr>phase := Showdown\<rparr>)) = map folded (players r)"
  "pot ((resetBets ((advance ^^ n) r))\<lparr>phase := Showdown\<rparr>) = pot r"
  using funpow_advance_fields[of n r] by (simp_all add: resetBets_def comp_def)

lemma last_player_acts:
  assumes room: "gameRooms w roomId = Some room"
    and cur: "- 1 \<le> currentPlayerIndex room"
    and i: "i < length (players room)"
    and only: "\<forall>j < length (players room). j \<noteq> i \<longrightarrow> folded (players room ! j)"
    and e: "eligible (players room ! i)"
  shows "nextPlayer (Suc fuel) x w roomId =
      Some (Inr (setRoom w roomId (room\<lparr>currentPlayerIndex := int i\<rparr>)))"
proof -
  let ?n = "length (players room)" and ?c = "nat (currentPlayerIndex room + 1)"
  from scan_reaches[OF i, of ?c] obtain k where k: "k < ?n" "(?c + k) mod ?n = i"
    and first: "\<forall>j < k. (?c + j) mod ?n \<noteq> i" by blast
  have n: "0 < ?n" using i by linarith
  have "\<not> eligible (players room ! ((?c + j) mod ?n))" if "j < k" for j
  proof -
    have "(?c + j) mod ?n < ?n" using n by (rule mod_less_divisor)
    with only first that have "folded (players room ! ((?c + j) mod ?n))" by blast
    then show ?thesis by (simp add: eligible_def)
  qed
  then have "nextPlayer (Suc fuel) x w roomId =
      Some (Inr (setRoom w roomId (room\<lparr>currentPlayerIndex := int ((?c + k) mod ?n)\<rparr>)))"
    using e k by (intro nextPlayer_found[OF room cur]) simp_all
  then show ?thesis by (simp only: k(2))
qed

lemmas handler_defs = playerAction_def findIndex_def actionSwitch_def writeUserChips_def Let_def
  jsRem_def nextPlayerLoop.simps eligible_def setRoom_def roomAfter_def

subsection \<open>The deck\<close>

lemma shuffleLoop_length [simp]: "length (shuffleLoop rnd k i xs) = length xs"
  by (induction i arbitrary: k xs) (simp_all add: Let_def)

lemma createDeck_length [simp]: "length (createDeck rnd) = 52"
proof -
  have "length (createDeck rnd) =
      length (concat (map (\<lambda>s. map (\<lambda>v. mkCard s v) card_values) suits))"
    unfolding createDeck_def shuffleDeck_def by (rule shuffleLoop_length)
  also have "\<dots> = 52" by (simp add: suits_def card_values_def)
  finally show ?thesis .
qed

lemma createDeck_nonempty [simp]:
  "createDeck rnd \<noteq> []"
  "butlast (createDeck rnd) \<noteq> []"
  "butlast (butlast (createDeck rnd)) \<noteq> []"
  "butlast (butlast (butlast (createDeck rnd))) \<noteq> []"
  by (simp_all add: length_greater_0_conv[symmetric] del: length_greater_0_conv)

lemma two_seats [simp]: "n mod Suc (Suc 0) = n mod 2"
  by (simp add: numeral_2_eq_2)

subsection \<open>Community cards\<close>

lemma dealCommunity_fields [simp]:
  "phase (dealCommunity r) = phase r"
  "maxPlayers (dealCommunity r) = maxPlayers r"
  by (simp_all add: dealCommunity_def)

lemma dealCommunity_deck [simp]: "length (deck (dealCommunity r)) = length (deck r) - 1"
  by (simp add: dealCommunity_def)

lemma dealCommunity_cards:
  assumes "1 \<le> length (deck r)"
  shows "length (communityCards (dealCommunity r)) = Suc (length (communityCards r))"
proof -
  from assms have "deck r \<noteq> []" by auto
  then show ?thesis by (simp add: dealCommunity_def)
qed

lemma resetBets_fields [simp]:
  "phase (resetBets r) = phase r"
  "communityCards (resetBets r) = communityCards r"
  "deck (resetBets r) = deck r"
  "maxPlayers (resetBets r) = maxPlayers r"
  "length (players (resetBets r)) = length (players r)"
  by (simp_all add: resetBets_def)

lemma streetSwitch_maxPlayers [simp]: "maxPlayers (streetSwitch r) = maxPlayers r"
  by (simp add: streetSwitch_def split: phase.splits)

lemma streetSwitch_cardsOk:
  assumes "cardsOk r"
  shows "cardsOk (streetSwitch r)"
proof (cases "phase r")
  case Preflop
  with assms have c: "length (communityCards r) = 0" and d: "5 \<le> length (deck r)"
    by (simp_all add: cardsOk_def)
  let ?r0 = "r\<lparr>phase := Flop\<rparr>"
  let ?r1 = "dealCommunity ?r0"
  let ?r2 = "dealCommunity ?r1"
  let ?r3 = "dealCommunity ?r2"
  have d0: "1 \<le> length (deck ?r0)" using d by simp
  have d1: "1 \<le> length (deck ?r1)" using d by simp
  have d2: "1 \<le> length (deck ?r2)" using d by simp
  have "length (communityCards ?r3) = Suc (Suc (Suc (length (communityCards ?r0))))"
    by (simp only: dealCommunity_cards[OF d2] dealCommunity_cards[OF d1]
        dealCommunity_cards[OF d0])
  then have "length (communityCards ?r3) = 3" using c by simp
  moreover have "2 \<le> length (deck ?r3)" using d by simp
  moreover have "phase ?r3 = Flop" by simp
  ultimately have "cardsOk ?r3" by (simp add: cardsOk_def)
  with Preflop show ?thesis by (simp add: streetSwitch_def)
next
  case Flop
  with assms have c: "length (communityCards r) = 3" and d: "2 \<le> length (deck r)"
    by (simp_all add: cardsOk_def)
  let ?r0 = "r\<lparr>phase := Turn\<rparr>"
  have d0: "1 \<le> length (deck ?r0)" using d by simp
  have "length (communityCards (dealCommunity ?r0)) = 4"
    using dealCommunity_cards[OF d0] c by simp
  moreover have "1 \<le> length (deck (dealCommunity ?r0))" using d by simp
  moreover have "phase (dealCommunity ?r0) = Turn" by simp
  ultimately have "cardsOk (dealCommunity ?r0)" by (simp add: cardsOk_def)
  with Flop show ?thesis by (simp add: streetSwitch_def)
next
  case Turn
  with assms have c: "length (communityCards r) = 4" and d: "1 \<le> length (deck r)"
    by (simp_all add: cardsOk_def)
  let ?r0 = "r\<lparr>phase := River\<rparr>"
  have d0: "1 \<le> length (deck ?r0)" using d by simp
  have "length (communityCards (dealCommunity ?r0)) = 5"
    using dealCommunity_cards[OF d0] c by simp
  moreover have "phase (dealCommunity ?r0) = River" by simp
  ultimately have "cardsOk (dealCommunity ?r0)" by (simp add: cardsOk_def)
  with Turn show ?thesis by (simp add: streetSwitch_def)
qed (use assms in \<open>simp_all add: streetSwitch_def\<close>)

lemma cardsOk_cong:
  assumes "phase r' = phase r" "communityCards r' = communityCards r" "deck r' = deck r"
  shows "cardsOk r' = cardsOk r"
  using assms by (cases "phase r") (simp_all add: cardsOk_def)

lemma advance_cardsOk:
  assumes "cardsOk r"
  shows "cardsOk (advance r)"
proof -
  have "cardsOk (resetBets r)" using assms by (simp add: cardsOk_cong[of "resetBets r" r])
  then have "cardsOk (streetSwitch (resetBets r))" by (rule streetSwitch_cardsOk)
  then show ?thesis
    by (simp add: advance_def
        cardsOk_cong[of "(streetSwitch (resetBets r))\<lparr>currentPlayerIndex := int (dealerIndex r)\<rparr>"
          "streetSwitch (resetBets r)"])
qed

lemma advance_seatsOk:
  assumes "seatsOk r"
  shows "seatsOk (advance r)"
  using assms by (simp add: seatsOk_def advance_def)

lemma switched_seats [simp]:
  "maxPlayers (switched data r i) = maxPlayers r"
  "length (players (switched data r i)) = length (players r)"
  by (simp_all add: switched_def actionSwitch_def Let_def split: action.splits)

lemma playerAction_roomOk:
  assumes "playerAction fuel x w socket data = Some (Inr w')"
    and "gameRooms w k = Some r" and "cardsOk r \<and> seatsOk r"
  shows "\<exists>r'. gameRooms w' k = Some r' \<and> (cardsOk r' \<and> seatsOk r')"
proof (rule playerAction_invariant[where I = "\<lambda>r. cardsOk r \<and> seatsOk r", OF _ _ _ _ assms])
  show "\<And>r i. cardsOk r \<and> seatsOk r \<Longrightarrow>
      cardsOk (r\<lparr>currentPlayerIndex := i\<rparr>) \<and> seatsOk (r\<lparr>currentPlayerIndex := i\<rparr>)"
    by (simp add: cardsOk_cong[of "r\<lparr>currentPlayerIndex := i\<rparr>" r for r i] seatsOk_def)
  show "\<And>r. cardsOk r \<and> seatsOk r \<Longrightarrow> cardsOk (advance r) \<and> seatsOk (advance r)"
    by (simp add: advance_cardsOk advance_seatsOk)
  show "\<And>r seat. cardsOk r \<and> seatsOk r \<Longrightarrow> phase r = River \<Longrightarrow> seat < length (players r) \<Longrightarrow>
      cardsOk (settled ((resetBets r)\<lparr>phase := Showdown\<rparr>) seat) \<and>
      seatsOk (settled ((resetBets r)\<lparr>phase := Showdown\<rparr>) seat)"
    by (simp add: cardsOk_def seatsOk_def)
  show "\<And>r i. cardsOk r \<and> seatsOk r \<Longrightarrow> i < length (players r) \<Longrightarrow>
      cardsOk (switched data r i) \<and> seatsOk (switched data r i)"
    by (simp add: cardsOk_cong[of "switched data r i" r for r i] seatsOk_def)
qed

subsection \<open>Rooms of the reachable states\<close>

lemma startNewGame_room:
  assumes room: "gameRooms w roomId = Some r" and n: "2 \<le> length (players r)"
  shows "\<exists>r'. gameRooms (startNewGame rnd w roomId) = (gameRooms w)(roomId \<mapsto> r') \<and>
     phase r' = Preflop \<and> communityCards r' = [] \<and>
     length (deck r') = 52 - length (players r) - length (players r) \<and>
     maxPlayers r' = maxPlayers r \<and> length (players r') = length (players r)"
proof -
  define r1 where "r1 = r\<lparr>deck := createDeck rnd, communityCards := [], pot := 0,
                           currentBet := bigBlind r, phase := Preflop\<rparr>"
  define res where "res = resetPlayers r1 0 (players r1) (users w) (pot r1)"
  define d1 where "d1 = dealRound (fst res) (deck r1)"
  define d2 where "d2 = dealRound (fst d1) (snd d1)"
  define r' where "r' = r1\<lparr>players := fst d2, deck := snd d2, pot := snd (snd res),
       currentPlayerIndex := int ((dealerIndex r1 + 3) mod length (fst d2))\<rparr>"
  have start: "startNewGame rnd w roomId =
      \<lparr>users = fst (snd res), gameRooms = (gameRooms w)(roomId \<mapsto> r')\<rparr>"
    using room n unfolding r'_def d2_def d1_def res_def r1_def
    by (simp add: startNewGame_def Let_def case_prod_beta)
  have "length (deck r') = 52 - length (players r) - length (players r)"
    by (simp add: r'_def d2_def d1_def res_def r1_def dealRound_deck)
  moreover have "phase r' = Preflop" "communityCards r' = []" "maxPlayers r' = maxPlayers r"
    "length (players r') = length (players r)"
    by (simp_all add: r'_def d2_def d1_def res_def r1_def)
  moreover have "gameRooms (startNewGame rnd w roomId) = (gameRooms w)(roomId \<mapsto> r')"
    by (simp add: start)
  ultimately show ?thesis by blast
qed

lemma startNewGame_idle:
  assumes "gameRooms w roomId = None \<or>
     (\<exists>r. gameRooms w roomId = Some r \<and> length (players r) < 2)"
  shows "startNewGame rnd w roomId = w"
  using assms by (auto simp: startNewGame_def)

lemma startNewGame_roomsOk:
  assumes "roomsOk w"
  shows "roomsOk (startNewGame rnd w roomId)"
proof (cases "gameRooms w roomId")
  case None
  then show ?thesis using assms by (simp add: startNewGame_idle)
next
  case (Some r)
  show ?thesis
  proof (cases "2 \<le> length (players r)")
    case False
    with Some have "startNewGame rnd w roomId = w" by (intro startNewGame_idle) auto
    with assms show ?thesis by simp
  next
    case True
    from startNewGame_room[OF Some True, of rnd] obtain r'
      where g: "gameRooms (startNewGame rnd w roomId) = (gameRooms w)(roomId \<mapsto> r')"
        and r': "phase r' = Preflop" "communityCards r' = []"
          "length (deck r') = 52 - length (players r) - length (players r)"
          "maxPlayers r' = maxPlayers r" "length (players r') = length (players r)"
      by blast
    from assms Some have ok: "seatsOk r" by (simp add: roomsOk_def)
    then have "5 \<le> length (deck r')" using r'(3) unfolding seatsOk_def by linarith
    with r' ok have "cardsOk r' \<and> seatsOk r'" by (simp add: cardsOk_def seatsOk_def)
    with assms show ?thesis by (simp add: roomsOk_def g)
  qed
qed

lemma createGameRoom_ok: "cardsOk (createGameRoom roomId bb) \<and> seatsOk (createGameRoom roomId bb)"
  by (simp add: createGameRoom_def cardsOk_def seatsOk_def)

lemma seat_added_ok:
  assumes "cardsOk r \<and> seatsOk r" and "\<not> maxPlayers r \<le> length (players r)"
  shows "cardsOk (r\<lparr>players := players r @ [p]\<rparr>) \<and> seatsOk (r\<lparr>players := players r @ [p]\<rparr>)"
  using assms by (simp add: cardsOk_cong[of "r\<lparr>players := players r @ [p]\<rparr>" r] seatsOk_def)

lemma joinRoom_roomsOk:
  assumes "roomsOk w"
  shows "roomsOk (fst (snd (joinRoom w socket jdata)))"
proof (cases "sock_userId socket")
  case None
  with assms show ?thesis by (simp add: joinRoom_def)
next
  case (Some uid)
  show ?thesis
  proof (cases "users w uid")
    case None
    with Some assms show ?thesis by (simp add: joinRoom_def)
  next
    case user: (Some u)
    define room where "room = (case gameRooms w (req_roomId jdata) of
        None \<Rightarrow> createGameRoom (req_roomId jdata) (req_bigBlind jdata) | Some r \<Rightarrow> r)"
    have ok: "cardsOk room \<and> seatsOk room"
      using assms createGameRoom_ok by (auto simp: room_def roomsOk_def split: option.splits)
    then have w1: "roomsOk (setRoom w (req_roomId jdata) room)"
      using assms by (simp add: roomsOk_def)
    have w2: "roomsOk (setRoom (setRoom w (req_roomId jdata) room) (req_roomId jdata)
        (room\<lparr>players := players room @ [p]\<rparr>))"
      if "\<not> maxPlayers room \<le> length (players room)" for p
      using seat_added_ok[OF ok that, of p] assms by (simp add: roomsOk_def)
    show ?thesis
      using Some user assms w1 w2
      by (simp add: joinRoom_def Let_def room_def[symmetric])
  qed
qed

lemma splice1_length: "length (splice1 i xs) \<le> length xs"
  by (simp add: splice1_def)

lemma leaveCurrentRoom_roomsOk:
  assumes "roomsOk w"
  shows "roomsOk (fst (leaveCurrentRoom w socket))"
proof (cases "currentRoom socket")
  case None
  with assms show ?thesis by (simp add: leaveCurrentRoom_def)
next
  case (Some roomId)
  show ?thesis
  proof (cases "gameRooms w roomId")
    case None
    with Some assms show ?thesis by (simp add: leaveCurrentRoom_def)
  next
    case room: (Some r)
    with assms have ok: "cardsOk r \<and> seatsOk r" by (simp add: roomsOk_def)
    have "length (splice1 i (players r)) \<le> 6" for i
      using splice1_length[of i "players r"] ok by (simp add: seatsOk_def)
    with ok have "cardsOk (r\<lparr>players := splice1 i (players r)\<rparr>) \<and>
        seatsOk (r\<lparr>players := splice1 i (players r)\<rparr>)" for i
      by (simp add: cardsOk_cong[of "r\<lparr>players := splice1 i (players r)\<rparr>" r] seatsOk_def)
    then have "roomsOk (setRoom w roomId (r\<lparr>players := splice1 i (players r)\<rparr>))" for i
      using assms by (simp add: roomsOk_def)
    moreover have "roomsOk (w\<lparr>gameRooms := (gameRooms w)(roomId := None)\<rparr>)"
      using assms by (simp add: roomsOk_def)
    ultimately show ?thesis
      using Some room assms by (simp add: leaveCurrentRoom_def Let_def)
  qed
qed

lemma disconnect_rooms:
  "gameRooms (fst (disconnect w socket)) = gameRooms (fst (leaveCurrentRoom w socket))"
  by (simp add: disconnect_def case_prod_beta split: option.splits)

lemma authenticate_rooms:
  "gameRooms (fst (snd (authenticate w socket adata))) = gameRooms w"
  by (simp add: authenticate_def split: option.splits)

lemma playerAction_roomsOk:
  assumes "roomsOk w" and "playerAction fuel x w socket data = Some (Inr w')"
  shows "roomsOk w'"
  unfolding roomsOk_def
proof (intro allI impI)
  fix k r'
  assume r': "gameRooms w' k = Some r'"
  show "cardsOk r' \<and> seatsOk r'"
  proof (cases "gameRooms w k")
    case None
    from playerAction_cases[OF assms(2)] have "gameRooms w' k = None"
    proof
      assume "w' = w"
      with None show ?thesis by simp
    next
      assume "\<exists>roomId r i us. currentRoom socket = Some roomId \<and> gameRooms w roomId = Some r \<and>
         i < length (players r) \<and> int i = currentPlayerIndex r \<and>
         socketId (players r ! i) = sock_id socket \<and>
         nextPlayer fuel x \<lparr>users = us, gameRooms = (gameRooms w)(roomId \<mapsto> switched data r i)\<rparr>
           roomId = Some (Inr w')"
      then obtain roomId r i us where r: "gameRooms w roomId = Some r"
        and np: "nextPlayer fuel x
          \<lparr>users = us, gameRooms = (gameRooms w)(roomId \<mapsto> switched data r i)\<rparr> roomId =
          Some (Inr w')"
        by blast
      from r None have ne: "k \<noteq> roomId" by auto
      with engine_other_rooms[of k roomId fuel x w'] np
      have "gameRooms w' k =
          gameRooms \<lparr>users = us, gameRooms = (gameRooms w)(roomId \<mapsto> switched data r i)\<rparr> k"
        by blast
      with ne None show ?thesis by simp
    qed
    with r' show ?thesis by simp
  next
    case (Some r)
    with assms(1) have "cardsOk r \<and> seatsOk r" by (simp add: roomsOk_def)
    from playerAction_roomOk[OF assms(2) Some this] r' show ?thesis by simp
  qed
qed

lemma reachable_roomsOk:
  assumes "reachable w"
  shows "roomsOk w"
  using assms
proof (induction rule: reachable.induct)
  case boot
  show ?case by (simp add: roomsOk_def)
next
  case (on_authenticate w socket adata)
  from on_authenticate.IH show ?case by (simp add: roomsOk_def authenticate_rooms)
next
  case (on_join w socket jdata)
  from on_join.IH show ?case by (rule joinRoom_roomsOk)
next
  case (on_leave w socket)
  from on_leave.IH show ?case by (rule leaveCurrentRoom_roomsOk)
next
  case (on_disconnect w socket)
  from on_disconnect.IH have "roomsOk (fst (leaveCurrentRoom w socket))"
    by (rule leaveCurrentRoom_roomsOk)
  then show ?case by (simp add: roomsOk_def disconnect_rooms)
next
  case (on_timer w rnd roomId)
  from on_timer.IH show ?case by (rule startNewGame_roomsOk)
next
  case (on_action w fuel x socket data w')
  from on_action.IH on_action.hyps(2) show ?case by (rule playerAction_roomsOk)
qed

lemma passes_cardsOk:
  assumes "passes r"
  shows "cardsOk r"
  using assms
proof (induction rule: passes.induct)
  case (rest w roomId r)
  then show ?case using reachable_roomsOk[of w] by (simp add: roomsOk_def)
next
  case (acted w roomId r i data)
  then have "cardsOk r" using reachable_roomsOk[of w] by (simp add: roomsOk_def)
  then show ?case by (simp add: cardsOk_cong[of "switched data r i" r])
next
  case (street r)
  from street.IH show ?case by (rule advance_cardsOk)
next
  case (showdown r)
  then show ?case by (simp add: cardsOk_def)
qed

text \<open>
  From a preflop state in which nobody is eligible, the engine passes through the flop,
  the turn, the river and the showdown.
\<close>

lemma passes_streets:
  assumes p: "passes r" and none: "\<forall>i < length (players r). \<not> eligible (players r ! i)"
    and ph: "phase r = Preflop"
  shows "passes (advance r) \<and> phase (advance r) = Flop \<and>
     passes (advance (advance r)) \<and> phase (advance (advance r)) = Turn \<and>
     passes (advance (advance (advance r))) \<and> phase (advance (advance (advance r))) = River \<and>
     passes ((resetBets (advance (advance (advance r))))\<lparr>phase := Showdown\<rparr>) \<and>
     phase ((resetBets (advance (advance (advance r))))\<lparr>phase := Showdown\<rparr>) = Showdown"
proof -
  have keep: "\<forall>i < length (players (advance q)). \<not> eligible (players (advance q) ! i)"
    if "\<forall>i < length (players q). \<not> eligible (players q ! i)" for q :: room
    using that by simp
  let ?f = "advance r" and ?t = "advance (advance r)" and ?v = "advance (advance (advance r))"
  have f: "phase ?f = Flop" by (simp add: phase_advance ph)
  have t: "phase ?t = Turn" by (simp add: phase_advance ph)
  have v: "phase ?v = River" by (simp add: phase_advance ph)
  have nf: "\<forall>i < length (players ?f). \<not> eligible (players ?f ! i)" using none by (rule keep)
  have nt: "\<forall>i < length (players ?t). \<not> eligible (players ?t ! i)" using nf by (rule keep)
  have nv: "\<forall>i < length (players ?v). \<not> eligible (players ?v ! i)" using nt by (rule keep)
  have pf: "passes ?f" using p none by (rule passes.street) (simp add: ph)
  have pt: "passes ?t" using pf nf by (rule passes.street) (simp add: f)
  have pv: "passes ?v" using pt nt by (rule passes.street) (simp add: t)
  have ps: "passes ((resetBets ?v)\<lparr>phase := Showdown\<rparr>)" using pv nv v by (rule passes.showdown)
  have s: "phase ((resetBets ?v)\<lparr>phase := Showdown\<rparr>) = Showdown" by simp
  from pf f pt t pv v ps s show ?thesis by blast
qed

lemma engine_pot:
  assumes np: "nextPlayer fuel x w roomId = Some (Inr w')"
    and room: "gameRooms w roomId = Some r"
  shows "\<exists>r'. gameRooms w' roomId = Some r' \<and> pot r' = pot r"
proof -
  define I where "I = (\<lambda>q::room. pot q = pot r)"
  have cpi: "I (q\<lparr>currentPlayerIndex := i\<rparr>)" if "I q" for q :: room and i
    using that by (simp add: I_def)
  have street: "I (advance q)" if "I q" for q :: room
    using that by (simp add: I_def)
  have river: "I (settled ((resetBets q)\<lparr>phase := Showdown\<rparr>) seat)"
    if "I q" "phase q = River" "seat < length (players q)" for q :: room and seat
    using that(1) by (simp add: I_def settled_def resetBets_def)
  have "I r" by (simp add: I_def)
  with engine_invariant[of I roomId fuel x w', OF cpi street river] room np
  have "\<exists>r'. gameRooms w' roomId = Some r' \<and> I r'" by blast
  then show ?thesis by (simp add: I_def)
qed

subsection \<open>A hand that runs to the showdown\<close>

lemma deck_deep_nonempty [simp]:
  "butlast (butlast (butlast (butlast (createDeck rnd)))) \<noteq> []"
  by (simp add: length_greater_0_conv[symmetric] del: length_greater_0_conv)

lemma playerAction_in_turn:
  assumes "currentRoom socket = Some roomId" and "gameRooms w roomId = Some r"
    and "roomId \<noteq> []"
    and "findIndex (\<lambda>p. socketId p = sock_id socket) (players r) = int i"
    and "currentPlayerIndex r = int i"
    and "sock_userId socket = Some uid" and "users w uid = Some u"
  shows "\<exists>us. playerAction fuel x w socket data =
     nextPlayer fuel x \<lparr>users = us, gameRooms = (gameRooms w)(roomId \<mapsto> switched data r i)\<rparr> roomId"
proof -
  obtain p' r' c where sw: "actionSwitch data r (players r ! i) = (p', r', c)"
    by (cases "actionSwitch data r (players r ! i)") auto
  then have swd: "switched data r i = r'\<lparr>players := (players r')[i := p']\<rparr>"
    by (simp add: switched_def)
  obtain us where us: "writeUserChips w socket c = Inr us"
    using assms(6,7) by (cases c) (simp_all add: writeUserChips_def)
  have "playerAction fuel x w socket data =
      nextPlayer fuel x \<lparr>users = us, gameRooms = (gameRooms w)(roomId \<mapsto> switched data r i)\<rparr> roomId"
    unfolding swd using assms(1-5) sw us by (simp add: playerAction_def Let_def)
  then show ?thesis by blast
qed

lemma endGame_total:
  assumes room: "gameRooms w roomId = Some r"
    and active: "\<exists>p \<in> set (players r). \<not> folded p"
    and x: "0 \<le> x" "x < 1"
  shows "\<exists>seat. endGame x w roomId = Inr (settle w roomId r seat)"
proof -
  let ?act = "activeSeats (players r)"
  define k where "k = (if length ?act = 1 then 0 else \<lfloor>x * of_nat (length ?act)\<rfloor>)"
  have pos: "0 < length ?act" using active by (rule activeSeats_nonempty)
  have k: "0 \<le> k \<and> k < int (length ?act)"
    using random_index[OF x pos] pos by (simp add: k_def)
  have "endGame x w roomId = Inr (settle w roomId r (?act ! nat k))"
    unfolding endGame_unfold[OF room] Let_def k_def[symmetric] using k by simp
  then show ?thesis by blast
qed

lemma funpow_advance_cardsOk: "cardsOk r \<Longrightarrow> cardsOk ((advance ^^ n) r)"
  by (induction n) (simp_all add: advance_cardsOk)

lemma phase_at_river:
  assumes "inHand (phase r)"
  shows "phase ((advance ^^ streetsLeft (phase r)) r) = River"
  using assms
  by (cases "phase r") (simp_all add: inHand_def numeral_3_eq_3 numeral_2_eq_2 phase_advance)

lemma showdown_cards:
  assumes room: "gameRooms w roomId = Some r"
    and cur: "- 1 \<le> currentPlayerIndex r"
    and hand: "inHand (phase r)" and ok: "cardsOk r"
    and none: "\<forall>i < length (players r). \<not> eligible (players r ! i)"
    and active: "\<exists>p \<in> set (players r). \<not> folded p"
    and x: "0 \<le> x" "x < 1"
  shows "\<exists>w' r'. nextPlayer (8 + fuel) x w roomId = Some (Inr w') \<and>
     gameRooms w' roomId = Some r' \<and> phase r' = Waiting \<and> length (communityCards r') = 5"
proof -
  let ?n = "streetsLeft (phase r)"
  let ?F = "(resetBets ((advance ^^ ?n) r))\<lparr>phase := Showdown\<rparr>"
  let ?w = "setRoom w roomId ?F"
  have "?n \<le> 3" by (cases "phase r") simp_all
  then have fuel: "8 + fuel = Suc (Suc (2 * ?n + (6 - 2 * ?n + fuel)))" by simp
  have "set (map folded (players ?F)) = set (map folded (players r))"
    by (simp only: showdown_room_fields(2))
  moreover have "False \<in> set (map folded (players r))" using active by force
  ultimately have "False \<in> set (map folded (players ?F))" by (simp only:)
  then have activeF: "\<exists>p \<in> set (players ?F). \<not> folded p" by force
  have gF: "gameRooms ?w roomId = Some ?F" by simp
  from endGame_total[OF gF activeF x] obtain seat
    where e: "endGame x ?w roomId = Inr (settle ?w roomId ?F seat)" by blast
  have "nextPlayer (8 + fuel) x w roomId = nextPhase (Suc (2 * ?n + (6 - 2 * ?n + fuel))) x w roomId"
    unfolding fuel by (rule nextPlayer_none[OF room cur none])
  also have "\<dots> = Some (endGame x ?w roomId)"
    by (rule run_to_showdown[OF room hand none refl])
  finally have run: "nextPlayer (8 + fuel) x w roomId = Some (Inr (settle ?w roomId ?F seat))"
    by (simp only: e)
  have "cardsOk ((advance ^^ ?n) r)" using ok by (rule funpow_advance_cardsOk)
  with phase_at_river[OF hand] have "length (communityCards ((advance ^^ ?n) r)) = 5"
    by (simp add: cardsOk_def)
  then have five: "length (communityCards (settled ?F seat)) = 5" by simp
  have g': "gameRooms (settle ?w roomId ?F seat) roomId = Some (settled ?F seat)" by simp
  have ph: "phase (settled ?F seat) = Waiting" by simp
  show ?thesis
    by (intro exI[of _ "settle ?w roomId ?F seat"] exI[of _ "settled ?F seat"] conjI)
       (fact run g' ph five)+
qed


lemma seated_headsUp: "seated = headsUpWorld"
  by (simp add: seated_def registered_def headsUpWorld_def authenticate_def joinRoom_def Let_def
      setRoom_def example_defs)

lemma headsUp_first_allIn:
  "\<exists>w2 r2. playerAction 1 0 (startNewGame (\<lambda>k. 0) headsUpWorld ''r'')
             (exSocket ''B'' (Some ''r'')) \<lparr>act = AllIn, amount = None\<rparr> = Some (Inr w2) \<and>
     gameRooms w2 ''r'' = Some r2 \<and> users w2 ''A'' = Some (exUser ''A'' 9900) \<and>
     findIndex (\<lambda>p. socketId p = ''s-A'') (players r2) = 0 \<and>
     length (players r2) = 2 \<and>
     \<not> folded (players r2 ! 1) \<and> allIn (players r2 ! 1) \<and>
     currentPlayerIndex r2 = 0 \<and> phase r2 = Preflop \<and> communityCards r2 = [] \<and>
     length (deck r2) = 48 \<and> pot r2 = 10100 \<and> map chips (players r2) = [9900, 0] \<and>
     exactRoom r2"
  by (simp add: handler_defs startNewGame_def syncUser_def headsUpWorld_def example_defs
      exactRoom_def exactAmount_def)


lemma headsUp_reachable: "reachable (startNewGame rnd headsUpWorld ''r'')"
proof -
  have "reachable seated"
    unfolding seated_def registered_def
    by (intro reachable.on_join reachable.on_authenticate reachable.boot)
  then show ?thesis unfolding seated_headsUp by (rule reachable.on_timer)
qed

lemma switched_allIn:
  "players (switched \<lparr>act = AllIn, amount = a\<rparr> r i) =
     (players r)[i := (players r ! i)\<lparr>bet := bet (players r ! i) + chips (players r ! i),
        chips := 0, allIn := True\<rparr>]"
  "currentPlayerIndex (switched \<lparr>act = AllIn, amount = a\<rparr> r i) = currentPlayerIndex r"
  "pot (switched \<lparr>act = AllIn, amount = a\<rparr> r i) = pot r + chips (players r ! i)"
  by (simp_all add: switched_def actionSwitch_def Let_def)

text \<open>
  The hand in which B and then A go all-in: after A's action nobody is eligible, the
  engine deals the flop, the turn and the river and settles the hand.
\<close>

lemma allInHand_result:
  "\<exists>w2 r2 r3 w' r'.
     playerAction 1 0 (startNewGame (\<lambda>k. 0) headsUpWorld ''r'')
       (exSocket ''B'' (Some ''r'')) \<lparr>act = AllIn, amount = None\<rparr> = Some (Inr w2) \<and>
     gameRooms w2 ''r'' = Some r2 \<and> phase r2 = Preflop \<and> chipsInPlay r2 = 20000 \<and>
     exactRoom r2 \<and>
     passes r3 \<and> phase r3 = Preflop \<and>
     (\<forall>i < length (players r3). \<not> eligible (players r3 ! i)) \<and>
     allInHand = Some (Inr w') \<and> reachable w' \<and> gameRooms w' ''r'' = Some r' \<and>
     phase r' = Waiting \<and> length (communityCards r') = 5 \<and>
     sum_list (map chips (players r')) = 20000 \<and> pot r' = 20000"
proof -
  let ?w1 = "startNewGame (\<lambda>k. 0) headsUpWorld ''r''"
  let ?allIn = "\<lparr>act = AllIn, amount = None\<rparr>"
  from headsUp_first_allIn obtain w2 r2
    where b: "playerAction 1 0 ?w1 (exSocket ''B'' (Some ''r'')) ?allIn = Some (Inr w2)"
      and g2: "gameRooms w2 ''r'' = Some r2" and u2: "users w2 ''A'' = Some (exUser ''A'' 9900)"
      and fi: "findIndex (\<lambda>p. socketId p = ''s-A'') (players r2) = 0"
      and len: "length (players r2) = 2"
      and p1: "\<not> folded (players r2 ! 1)" "allIn (players r2 ! 1)"
      and c2: "currentPlayerIndex r2 = 0" and ph2: "phase r2 = Preflop"
      and cc2: "communityCards r2 = []" and d2: "length (deck r2) = 48"
      and pot2: "pot r2 = 10100" and chips2: "map chips (players r2) = [9900, 0]"
      and ex2: "exactRoom r2"
    by (elim exE conjE) (rule that)
  let ?r3 = "switched ?allIn r2 0"
  have total2: "chipsInPlay r2 = 20000" by (simp add: chipsInPlay_def pot2 chips2)
  have reach2: "reachable w2" using headsUp_reachable b by (rule reachable.on_action)
  have "\<exists>us. playerAction 8 0 w2 (exSocket ''A'' (Some ''r'')) ?allIn =
      nextPlayer 8 0 \<lparr>users = us, gameRooms = (gameRooms w2)(''r'' \<mapsto> switched ?allIn r2 0)\<rparr> ''r''"
    using g2 u2 fi c2
    by (intro playerAction_in_turn[where uid = "''A''" and u = "exUser ''A'' 9900"])
       (simp_all add: exSocket_def)
  then obtain us where a: "playerAction 8 0 w2 (exSocket ''A'' (Some ''r'')) ?allIn =
      nextPlayer 8 0 \<lparr>users = us, gameRooms = (gameRooms w2)(''r'' \<mapsto> ?r3)\<rparr> ''r''"
    by blast
  let ?w3 = "\<lparr>users = us, gameRooms = (gameRooms w2)(''r'' \<mapsto> ?r3)\<rparr>"
  have g3: "gameRooms ?w3 ''r'' = Some ?r3" by simp
  have cur3: "- 1 \<le> currentPlayerIndex ?r3" by (simp add: switched_allIn c2)
  have ph3: "phase ?r3 = Preflop" by (simp add: ph2)
  have hand3: "inHand (phase ?r3)" by (simp add: ph2 inHand_def)
  have ok3: "cardsOk ?r3"
    by (simp add: cardsOk_cong[of ?r3 r2]) (simp add: cardsOk_def ph2 cc2 d2)
  have none3: "\<forall>i < length (players ?r3). \<not> eligible (players ?r3 ! i)"
    using p1 by (simp add: switched_allIn len less_Suc_eq numeral_2_eq_2 eligible_def nth_list_update)
  have "\<not> folded (players ?r3 ! 1)" using p1 by (simp add: switched_allIn len)
  moreover have "players ?r3 ! 1 \<in> set (players ?r3)" by (intro nth_mem) (simp add: len)
  ultimately have active3: "\<exists>p \<in> set (players ?r3). \<not> folded p" by blast
  have acted: "passes ?r3" using reach2 g2 by (rule passes.acted) (simp_all add: len c2)
  have x: "(0::rat) \<le> 0" "(0::rat) < 1" by simp_all
  from showdown_cards[OF g3 cur3 hand3 ok3 none3 active3 x, of 0] obtain w' r'
    where run: "nextPlayer (8 + 0) 0 ?w3 ''r'' = Some (Inr w')"
      and r': "gameRooms w' ''r'' = Some r'" "phase r' = Waiting" "length (communityCards r') = 5"
    by blast
  from run have np: "nextPlayer 8 0 ?w3 ''r'' = Some (Inr w')" by (simp del: nextPlayer.simps)
  with a have second: "playerAction 8 0 w2 (exSocket ''A'' (Some ''r'')) ?allIn = Some (Inr w')"
    by simp
  with reach2 have reach: "reachable w'" by (rule reachable.on_action)
  have all: "allInHand = Some (Inr w')" unfolding allInHand_def b using second by simp
  have total3: "chipsInPlay ?r3 = 20000"
    using switched_chipsInPlay[of 0 r2 ?allIn] by (simp add: len total2)
  have ne3: "phase ?r3 \<noteq> Waiting" by (simp add: ph2)
  from engine_chips[OF np g3 ne3] r'(1,2)
  have stacks: "sum_list (map chips (players r')) = 20000" by (simp add: total3)
  have "chips (players r2 ! 0) = 9900"
    using field_at_seat[of chips "players r2" id "[9900, 0]" 0] chips2 by (simp add: len)
  then have "pot ?r3 = 20000" by (simp add: switched_allIn pot2)
  with engine_pot[OF np g3] r'(1) have pt: "pot r' = 20000" by simp
  show ?thesis
    by (intro exI[of _ w2] exI[of _ r2] exI[of _ ?r3] exI[of _ w'] exI[of _ r'] conjI)
       (fact b g2 ph2 total2 ex2 acted ph3 none3 all reach r' stacks pt)+
qed

text \<open>
  With every player folded the scan of \<open>nextPlayer\<close> fails on every street, the engine
  runs to the river, and \<open>endGame\<close> finds no winner.
\<close>

lemma all_folded_throws:
  assumes room: "gameRooms w roomId = Some r"
    and cur: "- 1 \<le> currentPlayerIndex r"
    and hand: "inHand (phase r)"
    and all: "\<forall>i < length (players r). folded (players r ! i)"
  shows "nextPlayer (8 + fuel) y w roomId = Some (Inl TypeError)"
proof -
  let ?n = "streetsLeft (phase r)"
  let ?F = "(resetBets ((advance ^^ ?n) r))\<lparr>phase := Showdown\<rparr>"
  let ?w = "setRoom w roomId ?F"
  have none: "\<forall>i < length (players r). \<not> eligible (players r ! i)"
    using all by (simp add: eligible_def)
  have "?n \<le> 3" by (cases "phase r") simp_all
  then have fuel: "8 + fuel = Suc (Suc (2 * ?n + (6 - 2 * ?n + fuel)))" by simp
  have "activeSeats (players r) = []"
    using all by (simp add: activeSeats_def filter_empty_conv)
  then have act: "activeSeats (players ?F) = []"
    using activeSeats_cong[OF showdown_room_fields(2)[of ?n r]] by simp
  have gF: "gameRooms ?w roomId = Some ?F" by simp
  have e: "endGame y ?w roomId = Inl TypeError"
    unfolding endGame_unfold[OF gF] Let_def act by simp
  have "nextPlayer (8 + fuel) y w roomId = nextPhase (Suc (2 * ?n + (6 - 2 * ?n + fuel))) y w roomId"
    unfolding fuel by (rule nextPlayer_none[OF room cur none])
  also have "\<dots> = Some (endGame y ?w roomId)"
    by (rule run_to_showdown[OF room hand none refl])
  finally show ?thesis by (simp only: e)
qed

lemma headsUp_first_fold:
  "\<exists>w2 r2. playerAction 1 0 (startNewGame (\<lambda>k. 0) headsUpWorld ''r'')
             (exSocket ''B'' (Some ''r'')) \<lparr>act = Fold, amount = None\<rparr> = Some (Inr w2) \<and>
     gameRooms w2 ''r'' = Some r2 \<and> users w2 ''A'' = Some (exUser ''A'' 9900) \<and>
     findIndex (\<lambda>p. socketId p = ''s-A'') (players r2) = 0 \<and>
     length (players r2) = 2 \<and> map folded (players r2) = [False, True] \<and>
     map chips (players r2) = [9900, 9950] \<and> pot r2 = 150 \<and>
     currentPlayerIndex r2 = 0 \<and> phase r2 = Preflop"
  by (simp add: handler_defs startNewGame_def syncUser_def headsUpWorld_def example_defs)

lemma switched_fold:
  "players (switched \<lparr>act = Fold, amount = a\<rparr> r i) =
     (players r)[i := (players r ! i)\<lparr>folded := True\<rparr>]"
  "currentPlayerIndex (switched \<lparr>act = Fold, amount = a\<rparr> r i) = currentPlayerIndex r"
  by (simp_all add: switched_def actionSwitch_def Let_def)

lemma bothFold_result:
  "\<exists>w2 r2. playerAction 1 0 (startNewGame (\<lambda>k. 0) headsUpWorld ''r'')
             (exSocket ''B'' (Some ''r'')) \<lparr>act = Fold, amount = None\<rparr> = Some (Inr w2) \<and>
     reachable w2 \<and> gameRooms w2 ''r'' = Some r2 \<and>
     map folded (players r2) = [False, True] \<and> map chips (players r2) = [9900, 9950] \<and>
     pot r2 = 150 \<and> currentPlayerIndex r2 = 0 \<and> phase r2 = Preflop \<and>
     bothFold = Some (Inl TypeError)"
proof -
  let ?w1 = "startNewGame (\<lambda>k. 0) headsUpWorld ''r''"
  let ?fold = "\<lparr>act = Fold, amount = None\<rparr>"
  from headsUp_first_fold obtain w2 r2
    where b: "playerAction 1 0 ?w1 (exSocket ''B'' (Some ''r'')) ?fold = Some (Inr w2)"
      and g2: "gameRooms w2 ''r'' = Some r2" and u2: "users w2 ''A'' = Some (exUser ''A'' 9900)"
      and fi: "findIndex (\<lambda>p. socketId p = ''s-A'') (players r2) = 0"
      and len: "length (players r2) = 2" and f2: "map folded (players r2) = [False, True]"
      and chips2: "map chips (players r2) = [9900, 9950]" and pot2: "pot r2 = 150"
      and c2: "currentPlayerIndex r2 = 0" and ph2: "phase r2 = Preflop"
    by (elim exE conjE) (rule that)
  let ?r3 = "switched ?fold r2 0"
  have reach2: "reachable w2" using headsUp_reachable b by (rule reachable.on_action)
  have "\<exists>us. playerAction 8 0 w2 (exSocket ''A'' (Some ''r'')) ?fold =
      nextPlayer 8 0 \<lparr>users = us, gameRooms = (gameRooms w2)(''r'' \<mapsto> switched ?fold r2 0)\<rparr> ''r''"
    using g2 u2 fi c2
    by (intro playerAction_in_turn[where uid = "''A''" and u = "exUser ''A'' 9900"])
       (simp_all add: exSocket_def)
  then obtain us where a: "playerAction 8 0 w2 (exSocket ''A'' (Some ''r'')) ?fold =
      nextPlayer 8 0 \<lparr>users = us, gameRooms = (gameRooms w2)(''r'' \<mapsto> ?r3)\<rparr> ''r''"
    by blast
  let ?w3 = "\<lparr>users = us, gameRooms = (gameRooms w2)(''r'' \<mapsto> ?r3)\<rparr>"
  have g3: "gameRooms ?w3 ''r'' = Some ?r3" by simp
  have cur3: "- 1 \<le> currentPlayerIndex ?r3" by (simp add: switched_fold c2)
  have hand3: "inHand (phase ?r3)" by (simp add: ph2 inHand_def)
  have "folded (players r2 ! 1)"
    using field_at_seat[of folded "players r2" id "[False, True]" 1] f2 by (simp add: len)
  then have all3: "\<forall>i < length (players ?r3). folded (players ?r3 ! i)"
    by (simp add: switched_fold len less_Suc_eq numeral_2_eq_2 nth_list_update)
  from all_folded_throws[OF g3 cur3 hand3 all3, of 0 0]
  have "nextPlayer 8 0 ?w3 ''r'' = Some (Inl TypeError)" by (simp del: nextPlayer.simps)
  with a have "playerAction 8 0 w2 (exSocket ''A'' (Some ''r'')) ?fold = Some (Inl TypeError)"
    by simp
  then have both: "bothFold = Some (Inl TypeError)" unfolding bothFold_def b by simp
  show ?thesis
    by (intro exI[of _ w2] exI[of _ r2] conjI) (fact b reach2 g2 f2 chips2 pot2 c2 ph2 both)+
qed

section \<open>Room creation\<close>

text \<open>
  Claim C9, as amended. For an integer big blind \<open>n\<close>, \<open>createGameRoom\<close> puts the
  room in phase \<open>Waiting\<close> and sets the small blind to one half of \<open>n\<close>, without
  truncation: the small blind is \<open>n div 2\<close> plus one half of \<open>n mod 2\<close>. An even big
  blind \<open>2 * k\<close> gives the small blind \<open>k\<close>, an odd big blind \<open>2 * k + 1\<close> gives
  the half-integer \<open>k + 1/2\<close>. Halving an integer is exact in doubles.
\<close>

theorem createGameRoom_smallBlind:
  "phase (createGameRoom roomId (of_int n)) = Waiting \<and>
   smallBlind (createGameRoom roomId (of_int n)) = of_int (n div 2) + of_int (n mod 2) / 2 \<and>
   smallBlind (createGameRoom roomId (of_int (2 * k))) = of_int k \<and>
   smallBlind (createGameRoom roomId (of_int (2 * k + 1))) = of_int k + 1 / 2"
proof -
  have "(of_int n :: rat) = of_int (2 * (n div 2) + n mod 2)" by simp
  also have "\<dots> = 2 * of_int (n div 2) + of_int (n mod 2)" by (simp only: of_int_add of_int_mult of_int_numeral)
  finally have "(of_int n :: rat) / 2 = of_int (n div 2) + of_int (n mod 2) / 2"
    by (simp add: field_simps)
  then show ?thesis by (simp add: createGameRoom_def field_simps)
qed

text \<open>
  Claim C9 as stated fails: with a big blind of 5 the small blind is not the truncated
  quotient 2.
\<close>

theorem createGameRoom_truncation_counterexample:
  "smallBlind (createGameRoom ''r'' (of_int 5)) \<noteq> of_int (5 div 2)"
  by (simp add: createGameRoom_def)

section \<open>Rejected actions\<close>

text \<open>
  Claim C5. A \<^verbatim>\<open>player-action\<close> request changes nothing, neither the room, nor a
  player, nor the user table, when the socket has no current room (or its room id is the
  empty string, which the first guard of the handler rejects as well), when the room does
  not exist, when no player of the room has the sender's socket (the sender is not
  seated), or when the sender is not the player at \<open>currentPlayerIndex\<close>: the seat
  found for the sender differs from it, or the player at that index is not the sender.
\<close>

theorem playerAction_not_in_turn_noop:
  assumes "currentRoom socket = None \<or>
     (\<exists>roomId. currentRoom socket = Some roomId \<and>
        (roomId = [] \<or> gameRooms w roomId = None \<or>
         (\<exists>room. gameRooms w roomId = Some room \<and>
            ((\<forall>p \<in> set (players room). socketId p \<noteq> sock_id socket) \<or>
             findIndex (\<lambda>p. socketId p = sock_id socket) (players room) \<noteq> currentPlayerIndex room \<or>
             \<not> (0 \<le> currentPlayerIndex room \<and>
                 currentPlayerIndex room < int (length (players room)) \<and>
                 socketId (players room ! nat (currentPlayerIndex room)) = sock_id socket)))))"
  shows "playerAction fuel x w socket data = Some (Inr w)"
proof (cases "currentRoom socket")
  case None
  then show ?thesis by (simp add: playerAction_def)
next
  case (Some roomId)
  show ?thesis
  proof (cases "roomId = []")
    case True
    with Some show ?thesis by (simp add: playerAction_def)
  next
    case nonempty: False
    show ?thesis
    proof (cases "gameRooms w roomId")
      case None
      with Some show ?thesis by (simp add: playerAction_def)
    next
      case (Some room)
      let ?P = "\<lambda>p. socketId p = sock_id socket"
      let ?i = "findIndex ?P (players room)"
      from assms \<open>currentRoom socket = Some roomId\<close> Some nonempty
      have h: "(\<forall>p \<in> set (players room). socketId p \<noteq> sock_id socket) \<or>
               ?i \<noteq> currentPlayerIndex room \<or>
               \<not> (0 \<le> currentPlayerIndex room \<and>
                   currentPlayerIndex room < int (length (players room)) \<and>
                   socketId (players room ! nat (currentPlayerIndex room)) = sock_id socket)"
        by simp
      have "?i = - 1 \<or> ?i \<noteq> currentPlayerIndex room"
      proof (rule ccontr)
        assume "\<not> (?i = - 1 \<or> ?i \<noteq> currentPlayerIndex room)"
        then have ne: "?i \<noteq> - 1" and eq: "currentPlayerIndex room = ?i" by auto
        from findIndex_cases[of ?P "players room"] ne
        obtain k where k: "k < length (players room)" "?i = int k" "?P (players room ! k)"
          by auto
        from eq k have c: "currentPlayerIndex room = int k" by simp
        from k(1,3) have "\<exists>p \<in> set (players room). socketId p = sock_id socket"
          using nth_mem by blast
        with h eq c k show False by auto
      qed
      with Some \<open>currentRoom socket = Some roomId\<close> show ?thesis
        by (simp add: playerAction_def Let_def)
    qed
  qed
qed

theorem playerAction_not_in_turn_noop_witness:
  "playerAction 8 0
     (exWorld [exUser ''A'' 1000, exUser ''B'' 1000]
        ((exRoom 100 [exPlayer ''A'' 1000, exPlayer ''B'' 1000])
           \<lparr>currentPlayerIndex := 0, phase := Preflop\<rparr>))
     (exSocket ''B'' (Some ''r'')) \<lparr>act = Raise, amount = Some 500\<rparr>
   = Some (Inr (exWorld [exUser ''A'' 1000, exUser ''B'' 1000]
        ((exRoom 100 [exPlayer ''A'' 1000, exPlayer ''B'' 1000])
           \<lparr>currentPlayerIndex := 0, phase := Preflop\<rparr>)))"
  by (rule playerAction_not_in_turn_noop)
     (simp add: exWorld_def exRoom_def exSocket_def exPlayer_def createGameRoom_def findIndex_def)

section \<open>Hand start\<close>

text \<open>
  Claim C1. In a room with at least two seated players, \<open>startNewGame\<close> leaves the
  room in phase \<open>Preflop\<close>; the player at seat \<open>(dealerIndex + 1) mod N\<close> has posted
  the small blind and the player at seat \<open>(dealerIndex + 2) mod N\<close> the big blind
  (their bets are the blinds and their chips are reduced by them); the pot is the sum of
  the two blinds, the current bet is the big blind and the first player to act sits at
  \<open>(dealerIndex + 3) mod N\<close>.
\<close>

theorem startNewGame_blinds:
  assumes room: "gameRooms w roomId = Some room"
    and n: "2 \<le> length (players room)"
  shows "\<exists>room'. gameRooms (startNewGame rnd w roomId) roomId = Some room' \<and>
     phase room' = Preflop \<and>
     length (players room') = length (players room) \<and>
     bet (players room' ! ((dealerIndex room + 1) mod length (players room))) = smallBlind room \<and>
     chips (players room' ! ((dealerIndex room + 1) mod length (players room))) =
       chips (players room ! ((dealerIndex room + 1) mod length (players room))) - smallBlind room \<and>
     bet (players room' ! ((dealerIndex room + 2) mod length (players room))) = bigBlind room \<and>
     chips (players room' ! ((dealerIndex room + 2) mod length (players room))) =
       chips (players room ! ((dealerIndex room + 2) mod length (players room))) - bigBlind room \<and>
     pot room' = smallBlind room + bigBlind room \<and>
     currentBet room' = bigBlind room \<and>
     currentPlayerIndex room' = int ((dealerIndex room + 3) mod length (players room))"
proof -
  let ?n = "length (players room)"
  let ?s = "(dealerIndex room + 1) mod ?n" and ?b = "(dealerIndex room + 2) mod ?n"
  define r1 where "r1 = room\<lparr>deck := createDeck rnd, communityCards := [], pot := 0,
                           currentBet := bigBlind room, phase := Preflop\<rparr>"
  define res where "res = resetPlayers r1 0 (players r1) (users w) (pot r1)"
  define d1 where "d1 = dealRound (fst res) (deck r1)"
  define d2 where "d2 = dealRound (fst d1) (snd d1)"
  define room' where "room' = r1\<lparr>players := fst d2, deck := snd d2, pot := snd (snd res),
       currentPlayerIndex := int ((dealerIndex r1 + 3) mod length (fst d2))\<rparr>"
  have r1: "players r1 = players room" "dealerIndex r1 = dealerIndex room"
    "smallBlind r1 = smallBlind room" "bigBlind r1 = bigBlind room" "pot r1 = 0"
    by (simp_all add: r1_def)
  have start: "startNewGame rnd w roomId =
      \<lparr>users = fst (snd res), gameRooms = (gameRooms w)(roomId \<mapsto> room')\<rparr>"
    using room n unfolding room'_def d2_def d1_def res_def r1_def
    by (simp add: startNewGame_def Let_def case_prod_beta)
  have len: "length (players room') = ?n"
    by (simp add: room'_def d2_def d1_def res_def r1)
  have "0 < ?n" using n by linarith
  then have s: "?s < ?n" and b: "?b < ?n" by (rule mod_less_divisor)+
  have ne: "?s \<noteq> ?b" using blinds_distinct[OF n] .
  have bets: "map bet (players room') = map (blindDue r1) [0..<?n]"
    using resetPlayers_bet[of r1 0 "players r1" "users w" "pot r1"]
    by (simp add: room'_def d2_def d1_def res_def r1)
  have chps: "map chips (players room') =
      map (\<lambda>(j, p). chips p - blindDue r1 j) (zip [0..<?n] (players room))"
    using resetPlayers_chips[of r1 0 "players r1" "users w" "pot r1"]
    by (simp add: room'_def d2_def d1_def res_def r1)
  have bet_at: "bet (players room' ! i) = blindDue r1 i" if "i < ?n" for i
    using field_at_seat[OF bets, of i] that len by simp
  have chips_at: "chips (players room' ! i) = chips (players room ! i) - blindDue r1 i"
    if "i < ?n" for i
    using field_at_seat[OF chps, of i] that len by simp
  have due_s: "blindDue r1 ?s = smallBlind room" by (simp add: blindDue_def r1)
  have due_b: "blindDue r1 ?b = bigBlind room" using ne by (simp add: blindDue_def r1)
  have pot': "pot room' = smallBlind room + bigBlind room"
    using resetPlayers_pot[of r1 0 "players r1" "users w" "pot r1"] blindDue_total[of r1] n
    by (simp add: room'_def res_def r1)
  have "gameRooms (startNewGame rnd w roomId) roomId = Some room'" by (simp add: start)
  moreover have "phase room' = Preflop" by (simp add: room'_def r1_def)
  moreover have "currentBet room' = bigBlind room" by (simp add: room'_def r1_def)
  moreover have "currentPlayerIndex room' = int ((dealerIndex room + 3) mod ?n)"
    by (simp add: room'_def d2_def d1_def res_def r1)
  ultimately show ?thesis
    using len pot' bet_at[OF s] bet_at[OF b] chips_at[OF s] chips_at[OF b] due_s due_b
    by simp
qed

text \<open>
  The scenario of the claim: big blind 100, players A (dealer), B, C. B posts 50, C posts
  100, the pot is 150, the current bet 100, and A acts first.
\<close>

theorem startNewGame_blinds_witness:
  "\<exists>room'. gameRooms (startNewGame (\<lambda>k. 0)
       (exWorld [exUser ''A'' 10000, exUser ''B'' 10000, exUser ''C'' 10000]
          (exRoom 100 [exPlayer ''A'' 10000, exPlayer ''B'' 10000, exPlayer ''C'' 10000])) ''r'')
       ''r'' = Some room' \<and>
     phase room' = Preflop \<and>
     bet (players room' ! 1) = 50 \<and> chips (players room' ! 1) = 9950 \<and>
     bet (players room' ! 2) = 100 \<and> chips (players room' ! 2) = 9900 \<and>
     pot room' = 150 \<and> currentBet room' = 100 \<and> currentPlayerIndex room' = 0"
  using startNewGame_blinds[of
      "exWorld [exUser ''A'' 10000, exUser ''B'' 10000, exUser ''C'' 10000]
          (exRoom 100 [exPlayer ''A'' 10000, exPlayer ''B'' 10000, exPlayer ''C'' 10000])"
      "''r''" "exRoom 100 [exPlayer ''A'' 10000, exPlayer ''B'' 10000, exPlayer ''C'' 10000]"
      "\<lambda>k. 0"]
  by (simp add: exWorld_def exRoom_def exPlayer_def createGameRoom_def numeral_2_eq_2) blast

section \<open>Turn advance\<close>

text \<open>
  Claim C2. With \<open>N > 0\<close> seats, \<open>nextPlayer\<close> scans the seats
  \<open>(currentPlayerIndex + 1 + k) mod N\<close> for \<open>k = 0, ..., N - 1\<close>, once around the
  table, and makes the first seat whose player is eligible (not folded, not all-in, with
  chips) the current player, changing nothing else. When no seat is eligible it hands
  over to \<open>nextPhase\<close>.
\<close>

theorem nextPlayer_scan:
  assumes room: "gameRooms w roomId = Some room"
    and n: "0 < length (players room)"
    and cur: "- 1 \<le> currentPlayerIndex room"
  shows "(\<forall>k < length (players room).
            eligible (players room ! ((nat (currentPlayerIndex room + 1) + k) mod length (players room))) \<and>
            (\<forall>j < k. \<not> eligible (players room !
                 ((nat (currentPlayerIndex room + 1) + j) mod length (players room)))) \<longrightarrow>
            nextPlayer (Suc fuel) x w roomId =
              Some (Inr (setRoom w roomId (room\<lparr>currentPlayerIndex :=
                 int ((nat (currentPlayerIndex room + 1) + k) mod length (players room))\<rparr>)))) \<and>
         ((\<forall>i < length (players room). \<not> eligible (players room ! i)) \<longrightarrow>
            nextPlayer (Suc fuel) x w roomId = nextPhase fuel x w roomId)"
proof (intro conjI allI impI)
  fix k
  assume "k < length (players room)"
    and "eligible (players room !
            ((nat (currentPlayerIndex room + 1) + k) mod length (players room))) \<and>
         (\<forall>j < k. \<not> eligible (players room !
            ((nat (currentPlayerIndex room + 1) + j) mod length (players room))))"
  then show "nextPlayer (Suc fuel) x w roomId =
      Some (Inr (setRoom w roomId (room\<lparr>currentPlayerIndex :=
        int ((nat (currentPlayerIndex room + 1) + k) mod length (players room))\<rparr>)))"
    using nextPlayer_found[OF room cur, of k fuel x] by blast
next
  assume "\<forall>i < length (players room). \<not> eligible (players room ! i)"
  then show "nextPlayer (Suc fuel) x w roomId = nextPhase fuel x w roomId"
    by (rule nextPlayer_none[OF room cur])
qed

text \<open>
  The scenario of the claim: from A (folded) the advance skips B (all-in) and lands on C.
\<close>

theorem nextPlayer_scan_witness:
  "nextPlayer 1 0 (exWorld [] turnRoom) ''r'' =
   Some (Inr (setRoom (exWorld [] turnRoom) ''r'' (turnRoom\<lparr>currentPlayerIndex := 2\<rparr>))) \<and>
   folded (players turnRoom ! 0) \<and> allIn (players turnRoom ! 1) \<and>
   eligible (players turnRoom ! 2) \<and> currentPlayerIndex turnRoom = 0"
proof -
  have ps: "players turnRoom = [(exPlayer ''A'' 500)\<lparr>folded := True\<rparr>,
        (exPlayer ''B'' 0)\<lparr>allIn := True\<rparr>, exPlayer ''C'' 500]"
    and c: "currentPlayerIndex turnRoom = 0"
    by (simp_all add: turnRoom_def exRoom_def)
  have g: "gameRooms (exWorld [] turnRoom) ''r'' = Some turnRoom" by (simp add: exWorld_def)
  have n: "0 < length (players turnRoom)" by (simp add: ps)
  have c1: "- 1 \<le> currentPlayerIndex turnRoom" by (simp add: c)
  note scan = nextPlayer_scan[OF g n c1, of 0 0, THEN conjunct1, rule_format, of "Suc 0"]
  have "nextPlayer (Suc 0) 0 (exWorld [] turnRoom) ''r'' =
      Some (Inr (setRoom (exWorld [] turnRoom) ''r'' (turnRoom\<lparr>currentPlayerIndex :=
        int ((nat (currentPlayerIndex turnRoom + 1) + Suc 0) mod length (players turnRoom))\<rparr>)))"
    by (rule scan) (simp_all add: ps c eligible_def exPlayer_def)
  then show ?thesis by (simp add: ps c eligible_def exPlayer_def del: nextPlayer.simps)
qed

section \<open>Settlement\<close>

text \<open>
  When at least one player of the room has not folded, \<open>endGame\<close> (with \<open>x\<close> in
  \<open>[0, 1)\<close>, as \<^verbatim>\<open>Math.random\<close> returns it) picks a winner who has not
  folded; the winner's chips grow by exactly the pot, the user table receives the
  winner's new chip count, the phase becomes \<open>Waiting\<close> and the dealer index becomes
  \<open>(dealerIndex + 1) mod N\<close>. When exactly one player has not folded, that player is the
  winner and the result is the same for every value of \<open>x\<close>.
\<close>

lemma endGame_settles:
  assumes room: "gameRooms w roomId = Some room"
    and active: "\<exists>p \<in> set (players room). \<not> folded p"
    and x: "0 \<le> x" "x < 1"
  shows "\<exists>seat w' room'. endGame x w roomId = Inr w' \<and> gameRooms w' roomId = Some room' \<and>
     seat < length (players room) \<and> \<not> folded (players room ! seat) \<and>
     players room' = (players room)[seat :=
        (players room ! seat)\<lparr>chips := chips (players room ! seat) + pot room\<rparr>] \<and>
     chips (players room' ! seat) = chips (players room ! seat) + pot room \<and>
     users w' = syncUser (users w) (userId (players room ! seat)) (chips (players room' ! seat)) \<and>
     (\<forall>u. users w (userId (players room ! seat)) = Some u \<longrightarrow>
          users w' (userId (players room ! seat)) =
            Some (u\<lparr>user_chips := chips (players room' ! seat)\<rparr>)) \<and>
     phase room' = Waiting \<and>
     dealerIndex room' = (dealerIndex room + 1) mod length (players room) \<and>
     (\<forall>i. i < length (players room) \<and> \<not> folded (players room ! i) \<and>
          (\<forall>j < length (players room). \<not> folded (players room ! j) \<longrightarrow> j = i) \<longrightarrow>
          seat = i \<and> (\<forall>y. endGame y w roomId = Inr w'))"
proof -
  let ?ps = "players room"
  let ?act = "activeSeats ?ps"
  define k where "k = (if length ?act = 1 then 0 else \<lfloor>x * of_nat (length ?act)\<rfloor>)"
  define seat where "seat = ?act ! nat k"
  define w' where "w' = settle w roomId room seat"
  define room' where "room' = room\<lparr>players := ?ps[seat := (?ps ! seat)\<lparr>chips := chips (?ps ! seat) + pot room\<rparr>],
      phase := Waiting, dealerIndex := (dealerIndex room + 1) mod length ?ps\<rparr>"
  have pos: "0 < length ?act" using active by (rule activeSeats_nonempty)
  have k: "0 \<le> k \<and> k < int (length ?act)"
    using random_index[OF x pos] pos by (simp add: k_def)
  then have "nat k < length ?act" by linarith
  then have "seat \<in> set ?act" unfolding seat_def by (rule nth_mem)
  then have seat: "seat < length ?ps" "\<not> folded (?ps ! seat)" by (simp_all add: activeSeats_set)
  have res: "endGame x w roomId = Inr w'"
    unfolding endGame_unfold[OF room] Let_def k_def[symmetric]
    using k by (simp add: seat_def w'_def)
  have w': "gameRooms w' roomId = Some room'"
    "users w' = syncUser (users w) (userId (?ps ! seat)) (chips (?ps ! seat) + pot room)"
    by (simp_all add: w'_def settle_def room'_def Let_def)
  have ch: "chips (players room' ! seat) = chips (?ps ! seat) + pot room"
    using seat(1) by (simp add: room'_def)
  have sync: "users w' (userId (?ps ! seat)) = Some (u\<lparr>user_chips := chips (players room' ! seat)\<rparr>)"
    if "users w (userId (?ps ! seat)) = Some u" for u
    using that by (simp add: w'(2) ch syncUser_def)
  have single: "seat = i \<and> (\<forall>y. endGame y w roomId = Inr w')"
    if i: "i < length ?ps" "\<not> folded (?ps ! i)"
      and only: "\<forall>j < length ?ps. \<not> folded (?ps ! j) \<longrightarrow> j = i" for i
  proof -
    have "set ?act = {i}"
    proof
      show "set ?act \<subseteq> {i}" unfolding activeSeats_set using only by blast
      show "{i} \<subseteq> set ?act" unfolding activeSeats_set using i by blast
    qed
    moreover have "distinct ?act" by (simp add: activeSeats_def)
    ultimately have act: "?act = [i]" by (rule distinct_singleton)
    then have "seat = i" using k by (simp add: seat_def k_def)
    moreover have "endGame y w roomId = Inr w'" for y
      using act \<open>seat = i\<close> by (simp add: endGame_unfold[OF room] w'_def)
    ultimately show ?thesis by simp
  qed
  have c1: "players room' = ?ps[seat := (?ps ! seat)\<lparr>chips := chips (?ps ! seat) + pot room\<rparr>]"
    by (simp add: room'_def)
  have c2: "users w' = syncUser (users w) (userId (?ps ! seat)) (chips (players room' ! seat))"
    by (simp only: w'(2) ch)
  have c3: "\<forall>u. users w (userId (?ps ! seat)) = Some u \<longrightarrow>
      users w' (userId (?ps ! seat)) = Some (u\<lparr>user_chips := chips (players room' ! seat)\<rparr>)"
    using sync by blast
  have c4: "phase room' = Waiting" by (simp add: room'_def)
  have c5: "dealerIndex room' = (dealerIndex room + 1) mod length ?ps" by (simp add: room'_def)
  have c6: "\<forall>i. i < length ?ps \<and> \<not> folded (?ps ! i) \<and>
          (\<forall>j < length ?ps. \<not> folded (?ps ! j) \<longrightarrow> j = i) \<longrightarrow>
          seat = i \<and> (\<forall>y. endGame y w roomId = Inr w')"
    using single by blast
  show ?thesis
    by (intro exI[of _ seat] exI[of _ w'] exI[of _ room'] conjI)
       (fact res w'(1) seat c1 ch c2 c3 c4 c5 c6)+
qed

text \<open>
  Claim C7 against the code. A settlement need not have a player who has not folded. In
  the heads-up hand of A and B, started by the timer with a big blind of 100, B folds;
  the hand goes on with A to act and 150 in the pot. A folds as well. Nobody is eligible,
  so the phase engine runs through the flop, the turn and the river and calls
  \<open>endGame\<close>, where \<^verbatim>\<open>activePlayers\<close> is empty, \<^verbatim>\<open>winner\<close> is
  \<^verbatim>\<open>undefined\<close> and \<^verbatim>\<open>winner.chips += room.pot\<close> throws: the handler
  ends with a \<^verbatim>\<open>TypeError\<close>, nobody has received the pot, and the statements
  that set the phase to \<open>Waiting\<close> and move the dealer button are not reached. The
  same happens in \<open>endGame\<close> itself on the showdown room of A and B with both folded.
\<close>

theorem endGame_without_players_throws:
  "map_option (map folded \<circ> players)
     (roomAfter (playerAction 1 0 (startNewGame (\<lambda>k. 0) headsUpWorld ''r'')
        (exSocket ''B'' (Some ''r'')) \<lparr>act = Fold, amount = None\<rparr>) ''r'') = Some [False, True] \<and>
   map_option currentPlayerIndex
     (roomAfter (playerAction 1 0 (startNewGame (\<lambda>k. 0) headsUpWorld ''r'')
        (exSocket ''B'' (Some ''r'')) \<lparr>act = Fold, amount = None\<rparr>) ''r'') = Some 0 \<and>
   map_option pot
     (roomAfter (playerAction 1 0 (startNewGame (\<lambda>k. 0) headsUpWorld ''r'')
        (exSocket ''B'' (Some ''r'')) \<lparr>act = Fold, amount = None\<rparr>) ''r'') = Some 150 \<and>
   bothFold = Some (Inl TypeError) \<and>
   endGame (1 / 2)
     (exWorld [exUser ''A'' 1000]
        (settleRoom\<lparr>players := map (\<lambda>p. p\<lparr>folded := True\<rparr>) (players settleRoom)\<rparr>)) ''r'' =
     Inl TypeError"
proof -
  let ?first = "playerAction 1 0 (startNewGame (\<lambda>k. 0) headsUpWorld ''r'')
        (exSocket ''B'' (Some ''r'')) \<lparr>act = Fold, amount = None\<rparr>"
  from bothFold_result obtain w2 r2 where b: "?first = Some (Inr w2)"
    and g2: "gameRooms w2 ''r'' = Some r2"
    and r2: "map folded (players r2) = [False, True]" "pot r2 = 150" "currentPlayerIndex r2 = 0"
    and both: "bothFold = Some (Inl TypeError)"
    by (elim exE conjE) (rule that)
  have after: "roomAfter ?first ''r'' = Some r2" unfolding b roomAfter_def using g2 by simp
  have e: "endGame (1 / 2)
     (exWorld [exUser ''A'' 1000]
        (settleRoom\<lparr>players := map (\<lambda>p. p\<lparr>folded := True\<rparr>) (players settleRoom)\<rparr>)) ''r'' =
     Inl TypeError"
    by (simp add: endGame_def activeSeats_def settleRoom_def example_defs numeral_2_eq_2)
  show ?thesis unfolding after using r2 both e by simp
qed

section \<open>Minimum buy-in\<close>



section \<open>Chip conservation\<close>




section \<open>The last player in the hand\<close>

text \<open>
  When every player but the one at seat \<open>i\<close> has folded and that player can still act,
  \<open>nextPlayer\<close> makes that player the current player and changes nothing else: the
  scan only looks for an eligible seat and does not count the players left in the hand.
\<close>

lemma nextPlayer_sole_survivor:
  assumes "gameRooms w roomId = Some room"
    and "- 1 \<le> currentPlayerIndex room"
    and "i < length (players room)"
    and "\<forall>j < length (players room). j \<noteq> i \<longrightarrow> folded (players room ! j)"
    and "eligible (players room ! i)"
  shows "nextPlayer (Suc fuel) x w roomId =
     Some (Inr (setRoom w roomId (room\<lparr>currentPlayerIndex := int i\<rparr>)))"
  using assms by (rule last_player_acts)

text \<open>
  Claim C3 against the code. In the heads-up hand after the blinds (A has posted 100, B
  has posted 50 and is to act) B folds, which leaves A as the only player who has not
  folded. When the handler has returned, the phase is still the preflop, the pot still
  holds 150, A's stack has not grown and it is A's turn: no settlement has taken place.
  A then checks; the handler returns the same state again, with A to act.
\<close>

theorem fold_leaves_hand_unsettled:
  "map_option (map folded \<circ> players)
     (roomAfter (playerAction 8 0 foldWorld (exSocket ''B'' (Some ''r''))
        \<lparr>act = Fold, amount = None\<rparr>) ''r'') = Some [False, True] \<and>
   map_option phase
     (roomAfter (playerAction 8 0 foldWorld (exSocket ''B'' (Some ''r''))
        \<lparr>act = Fold, amount = None\<rparr>) ''r'') = Some Preflop \<and>
   map_option currentPlayerIndex
     (roomAfter (playerAction 8 0 foldWorld (exSocket ''B'' (Some ''r''))
        \<lparr>act = Fold, amount = None\<rparr>) ''r'') = Some 0 \<and>
   map_option (map chips \<circ> players)
     (roomAfter (playerAction 8 0 foldWorld (exSocket ''B'' (Some ''r''))
        \<lparr>act = Fold, amount = None\<rparr>) ''r'') = Some [9900, 9950] \<and>
   map_option pot
     (roomAfter (playerAction 8 0 foldWorld (exSocket ''B'' (Some ''r''))
        \<lparr>act = Fold, amount = None\<rparr>) ''r'') = Some 150 \<and>
   playerAction 8 0 foldWorld (exSocket ''B'' (Some ''r'')) \<lparr>act = Fold, amount = None\<rparr> =
     Some (Inr (exWorld [exUser ''A'' 9900, exUser ''B'' 9950]
        (lastRoom\<lparr>currentPlayerIndex := 0\<rparr>))) \<and>
   playerAction 8 0
       (exWorld [exUser ''A'' 9900, exUser ''B'' 9950] (lastRoom\<lparr>currentPlayerIndex := 0\<rparr>))
       (exSocket ''A'' (Some ''r'')) \<lparr>act = Check, amount = None\<rparr> =
     Some (Inr (exWorld [exUser ''A'' 9900, exUser ''B'' 9950]
        (lastRoom\<lparr>currentPlayerIndex := 0\<rparr>)))"
  by (simp add: handler_defs foldWorld_def foldRoom_def lastRoom_def example_defs numeral_eq_Suc)

section \<open>The current bet\<close>

text \<open>
  Claim C4 against the code. A new hand starts in a room with big blind 100 where A has 60
  chips and B 19940: A posts the small blind 50, B the big blind 100, the current bet is
  100 and covers both bets. A then raises (by the default amount, the big blind). The
  raise is capped by A's 10 remaining chips, A's bet becomes 60, and the handler stores
  it as the current bet: the current bet 60 is now below B's bet of 100.
\<close>

theorem raise_lowers_currentBet:
  "map_option (map bet \<circ> players) (gameRooms (startNewGame (\<lambda>k. 0) shortWorld ''r'') ''r'') =
     Some [50, 100] \<and>
   map_option (map chips \<circ> players) (gameRooms (startNewGame (\<lambda>k. 0) shortWorld ''r'') ''r'') =
     Some [10, 19840] \<and>
   map_option currentBet (gameRooms (startNewGame (\<lambda>k. 0) shortWorld ''r'') ''r'') = Some 100 \<and>
   map_option currentPlayerIndex (gameRooms (startNewGame (\<lambda>k. 0) shortWorld ''r'') ''r'') =
     Some 0 \<and>
   map_option (map bet \<circ> players)
     (roomAfter (playerAction 1 0 (startNewGame (\<lambda>k. 0) shortWorld ''r'')
        (exSocket ''A'' (Some ''r'')) \<lparr>act = Raise, amount = None\<rparr>) ''r'') = Some [60, 100] \<and>
   map_option currentBet
     (roomAfter (playerAction 1 0 (startNewGame (\<lambda>k. 0) shortWorld ''r'')
        (exSocket ''A'' (Some ''r'')) \<lparr>act = Raise, amount = None\<rparr>) ''r'') = Some 60"
  by (simp add: handler_defs startNewGame_def syncUser_def shortWorld_def example_defs)

section \<open>Community cards\<close>

text \<open>
  Claim C8, as amended. In every room state that the server passes through, between two
  events or inside one run of the action handler, the room holds exactly 0, 3, 4, 5 and 5
  community cards in the phases preflop, flop, turn, river and showdown; a waiting room
  holds 0 or 5. The hand start re-establishes this (phase preflop, no community cards),
  and so does every phase advance: \<open>nextPhase\<close> outside the river hands the room
  \<open>advance r\<close> on to \<open>nextPlayer\<close>, which is in the flop with 3 cards, in the turn
  with 4 or in the river with 5 when \<open>r\<close> was in the preflop, the flop or the turn; at
  the river \<open>nextPhase\<close> calls \<open>endGame\<close> on the room in phase \<open>Showdown\<close> with
  the same five cards. The settlement sets the phase to \<open>Waiting\<close> and leaves the
  community cards as they are, so a waiting room holds the five cards of the last hand
  until the next hand start clears them.
\<close>

theorem community_cards_by_phase:
  "(\<forall>r. passes r \<longrightarrow>
      (phase r = Preflop \<longrightarrow> length (communityCards r) = 0) \<and>
      (phase r = Flop \<longrightarrow> length (communityCards r) = 3) \<and>
      (phase r = Turn \<longrightarrow> length (communityCards r) = 4) \<and>
      (phase r = River \<longrightarrow> length (communityCards r) = 5) \<and>
      (phase r = Showdown \<longrightarrow> length (communityCards r) = 5) \<and>
      (phase r = Waiting \<longrightarrow>
         length (communityCards r) = 0 \<or> length (communityCards r) = 5)) \<and>
   (\<forall>rnd w roomId r. gameRooms w roomId = Some r \<longrightarrow> 2 \<le> length (players r) \<longrightarrow>
      (\<exists>r'. gameRooms (startNewGame rnd w roomId) roomId = Some r' \<and>
         phase r' = Preflop \<and> communityCards r' = [])) \<and>
   (\<forall>fuel x w roomId r. gameRooms w roomId = Some r \<longrightarrow> phase r \<noteq> River \<longrightarrow>
      nextPhase (Suc fuel) x w roomId =
        nextPlayer fuel x (setRoom w roomId (advance r)) roomId) \<and>
   (\<forall>r. passes r \<longrightarrow>
      (phase r = Preflop \<longrightarrow>
         phase (advance r) = Flop \<and> length (communityCards (advance r)) = 3) \<and>
      (phase r = Flop \<longrightarrow>
         phase (advance r) = Turn \<and> length (communityCards (advance r)) = 4) \<and>
      (phase r = Turn \<longrightarrow>
         phase (advance r) = River \<and> length (communityCards (advance r)) = 5)) \<and>
   (\<forall>fuel x w roomId r. gameRooms w roomId = Some r \<longrightarrow> phase r = River \<longrightarrow>
      nextPhase (Suc fuel) x w roomId =
        Some (endGame x (setRoom w roomId ((resetBets r)\<lparr>phase := Showdown\<rparr>)) roomId) \<and>
      communityCards ((resetBets r)\<lparr>phase := Showdown\<rparr>) = communityCards r) \<and>
   (\<forall>x w roomId r w'. gameRooms w roomId = Some r \<longrightarrow> endGame x w roomId = Inr w' \<longrightarrow>
      (\<exists>r'. gameRooms w' roomId = Some r' \<and> phase r' = Waiting \<and>
         communityCards r' = communityCards r))"
proof (intro conjI allI impI)
  fix r
  assume "passes r"
  then have ok: "cardsOk r" by (rule passes_cardsOk)
  show "phase r = Preflop \<Longrightarrow> length (communityCards r) = 0"
    and "phase r = Flop \<Longrightarrow> length (communityCards r) = 3"
    and "phase r = Turn \<Longrightarrow> length (communityCards r) = 4"
    and "phase r = River \<Longrightarrow> length (communityCards r) = 5"
    and "phase r = Showdown \<Longrightarrow> length (communityCards r) = 5"
    and "phase r = Waiting \<Longrightarrow> length (communityCards r) = 0 \<or> length (communityCards r) = 5"
    using ok by (simp_all add: cardsOk_def)
next
  fix rnd and w :: world and roomId r
  assume "gameRooms w roomId = Some r" "2 \<le> length (players r)"
  from startNewGame_room[OF this, of rnd]
  show "\<exists>r'. gameRooms (startNewGame rnd w roomId) roomId = Some r' \<and>
         phase r' = Preflop \<and> communityCards r' = []"
    by auto
next
  fix fuel x and w :: world and roomId r
  assume "gameRooms w roomId = Some r" "phase r \<noteq> River"
  then show "nextPhase (Suc fuel) x w roomId =
      nextPlayer fuel x (setRoom w roomId (advance r)) roomId"
    by (rule nextPhase_street)
next
  fix r
  assume "passes r"
  then have "cardsOk r" by (rule passes_cardsOk)
  then have ok: "cardsOk (advance r)" by (rule advance_cardsOk)
  show "phase r = Preflop \<Longrightarrow> phase (advance r) = Flop"
    and "phase r = Flop \<Longrightarrow> phase (advance r) = Turn"
    and "phase r = Turn \<Longrightarrow> phase (advance r) = River"
    by (simp_all add: phase_advance)
  then show "phase r = Preflop \<Longrightarrow> length (communityCards (advance r)) = 3"
    and "phase r = Flop \<Longrightarrow> length (communityCards (advance r)) = 4"
    and "phase r = Turn \<Longrightarrow> length (communityCards (advance r)) = 5"
    using ok by (simp_all add: cardsOk_def)
next
  fix fuel x and w :: world and roomId r
  assume "gameRooms w roomId = Some r" "phase r = River"
  then show "nextPhase (Suc fuel) x w roomId =
      Some (endGame x (setRoom w roomId ((resetBets r)\<lparr>phase := Showdown\<rparr>)) roomId)"
    by (rule nextPhase_river)
next
  fix r :: room
  show "communityCards ((resetBets r)\<lparr>phase := Showdown\<rparr>) = communityCards r" by simp
next
  fix x and w :: world and roomId r w'
  assume g: "gameRooms w roomId = Some r" and e: "endGame x w roomId = Inr w'"
  from endGame_result[OF e g] obtain seat where "w' = settle w roomId r seat" by blast
  then show "\<exists>r'. gameRooms w' roomId = Some r' \<and> phase r' = Waiting \<and>
         communityCards r' = communityCards r"
    by simp
qed

text \<open>
  A and B register and join room \<open>r\<close>; when the timer fires, the room is in the preflop
  with no community cards. B and then A go all-in. After A's action nobody is eligible,
  and the engine passes through a flop state with three community cards, a turn state
  with four, a river state with five and a showdown state with five.
\<close>

theorem community_cards_by_phase_witness:
  "(\<exists>r. gameRooms (startNewGame (\<lambda>k. 0) seated ''r'') ''r'' = Some r \<and> passes r \<and>
      phase r = Preflop \<and> length (communityCards r) = 0) \<and>
   (\<exists>r. passes r \<and> phase r = Preflop \<and> phase (advance r) = Flop \<and>
      length (communityCards (advance r)) = 3) \<and>
   (\<exists>r. passes r \<and> phase r = Flop \<and> length (communityCards r) = 3) \<and>
   (\<exists>r. passes r \<and> phase r = Turn \<and> length (communityCards r) = 4) \<and>
   (\<exists>r. passes r \<and> phase r = River \<and> length (communityCards r) = 5) \<and>
   (\<exists>r. passes r \<and> phase r = Showdown \<and> length (communityCards r) = 5)"
proof -
  let ?w = "startNewGame (\<lambda>k. 0) seated ''r''"
  have reach: "reachable ?w" unfolding seated_headsUp by (rule headsUp_reachable)
  have g: "gameRooms seated ''r'' = Some (exRoom 100 [exPlayer ''A'' 10000, exPlayer ''B'' 10000])"
    by (simp add: seated_headsUp headsUpWorld_def exWorld_def)
  have n: "2 \<le> length (players (exRoom 100 [exPlayer ''A'' 10000, exPlayer ''B'' 10000]))"
    by (simp add: exRoom_def)
  from community_cards_by_phase[THEN conjunct2, THEN conjunct1, rule_format, OF g n, of "\<lambda>k. 0"]
  obtain r' where r': "gameRooms ?w ''r'' = Some r'" "phase r' = Preflop" by blast
  from reach r'(1) have p: "passes r'" by (rule passes.rest)
  from community_cards_by_phase[THEN conjunct1, rule_format, OF p] r'(2)
  have zero: "length (communityCards r') = 0" by blast
  from r' p zero have c1: "\<exists>r. gameRooms ?w ''r'' = Some r \<and> passes r \<and>
      phase r = Preflop \<and> length (communityCards r) = 0"
    by blast
  from community_cards_by_phase[THEN conjunct2, THEN conjunct2, THEN conjunct2, THEN conjunct1,
      rule_format, OF p] r'(2)
  have "phase (advance r') = Flop \<and> length (communityCards (advance r')) = 3" by blast
  with p r'(2) have c2: "\<exists>r. passes r \<and> phase r = Preflop \<and> phase (advance r) = Flop \<and>
      length (communityCards (advance r)) = 3"
    by blast
  from allInHand_result obtain r where pr: "passes r" and ph: "phase r = Preflop"
    and none: "\<forall>i < length (players r). \<not> eligible (players r ! i)"
    by (elim exE conjE) (rule that)
  let ?f = "advance r" and ?t = "advance (advance r)" and ?v = "advance (advance (advance r))"
  let ?s = "(resetBets ?v)\<lparr>phase := Showdown\<rparr>"
  from passes_streets[OF pr none ph]
  have pf: "passes ?f" and f: "phase ?f = Flop" and pt: "passes ?t" and t: "phase ?t = Turn"
    and pv: "passes ?v" and v: "phase ?v = River" and ps: "passes ?s" and s: "phase ?s = Showdown"
    by blast+
  from community_cards_by_phase[THEN conjunct1, rule_format, OF pf] f
  have "length (communityCards ?f) = 3" by blast
  with pf f have c3: "\<exists>r. passes r \<and> phase r = Flop \<and> length (communityCards r) = 3" by blast
  from community_cards_by_phase[THEN conjunct1, rule_format, OF pt] t
  have "length (communityCards ?t) = 4" by blast
  with pt t have c4: "\<exists>r. passes r \<and> phase r = Turn \<and> length (communityCards r) = 4" by blast
  from community_cards_by_phase[THEN conjunct1, rule_format, OF pv] v
  have "length (communityCards ?v) = 5" by blast
  with pv v have c5: "\<exists>r. passes r \<and> phase r = River \<and> length (communityCards r) = 5" by blast
  from community_cards_by_phase[THEN conjunct1, rule_format, OF ps] s
  have "length (communityCards ?s) = 5" by blast
  with ps s have c6: "\<exists>r. passes r \<and> phase r = Showdown \<and> length (communityCards r) = 5"
    by blast
  from c1 c2 c3 c4 c5 c6 show ?thesis by (intro conjI)
qed

text \<open>
  Claim C8 as stated fails in the phase \<open>Waiting\<close>. In the hand of A and B above both
  players go all-in; the hand runs through the flop, the turn and the river to the
  settlement. The state that results is reachable, its room is waiting, and it still
  holds the five community cards of the hand.
\<close>

theorem settlement_keeps_cards_counterexample:
  "map_option phase (roomAfter allInHand ''r'') = Some Waiting \<and>
   map_option (length \<circ> communityCards) (roomAfter allInHand ''r'') = Some 5"
proof -
  from allInHand_result obtain w' r' where h: "allInHand = Some (Inr w')"
    and r': "gameRooms w' ''r'' = Some r'" "phase r' = Waiting" "length (communityCards r') = 5"
    by (elim exE conjE) (rule that)
  have "roomAfter allInHand ''r'' = Some r'" unfolding h roomAfter_def using r'(1) by simp
  with r'(2,3) show ?thesis by simp
qed

end
